theory Spec2Isabelle
  imports Main
begin

section \<open>Abstract syntax (astnodes.py)\<close>

text \<open>
  The node classes of astnodes.py as one family of datatypes. A \<open>Num\<close> node carries the
  numeric literal as the text the lexer scanned: the binary value of the Python float is
  not modelled. Optional fields are \<open>option\<close>s, list fields are lists.
\<close>

datatype Expr =
    Name string
  | Num string
  | Str string
  | Bool bool
  | NoneLiteral
  | BinOp Expr string Expr
  | UnaryOp string Expr
  | BoolOp string "Expr list"
  | Compare Expr "string list" "Expr list"
  | Call Expr "Expr list" "KeywordArg list"
  | Attribute Expr string
  | Subscript Expr Slice
and KeywordArg = KeywordArg string Expr
and Slice = Slice "Expr option" "Expr option" "Expr option"

datatype Arg = Arg string "Expr option" "Expr option"

datatype Arguments = Arguments "Arg list"

datatype Stmt =
    ExprStmt Expr
  | Assign "Expr list" Expr
  | AugAssign Expr string Expr
  | Return "Expr option"
  | Pass
  | Break
  | Continue
  | If_stmt Expr "Stmt list" "Stmt list"
  | While Expr "Stmt list" "Stmt list"
  | For Expr Expr "Stmt list" "Stmt list"
  | FunctionDef string Arguments "Stmt list" "Expr option" "Expr list"

datatype Program = Program "Stmt list"

fun arg_name :: "Arg \<Rightarrow> string" where
  "arg_name (Arg n a d) = n"


section \<open>Tokens (tokens.py)\<close>

text \<open>
  A token type is the string tokens.py binds to its \<open>TT_\<close> constant. The payload of a
  token is \<open>None\<close>, a string, or a number; a number is kept as the text that was
  scanned (see \<open>Num\<close> above).
\<close>

datatype tok_value = VNone | VStr string | VNum string

record Token =
  tok_type :: string
  tok_value :: tok_value
  tok_line :: nat
  tok_column :: nat

definition Token :: "string \<Rightarrow> tok_value \<Rightarrow> nat \<Rightarrow> nat \<Rightarrow> Token" where
  "Token ty v l c = \<lparr>tok_type = ty, tok_value = v, tok_line = l, tok_column = c\<rparr>"

abbreviation TT_NAME :: string where "TT_NAME \<equiv> ''NAME''"
abbreviation TT_NUMBER :: string where "TT_NUMBER \<equiv> ''NUMBER''"
abbreviation TT_STRING :: string where "TT_STRING \<equiv> ''STRING''"
abbreviation TT_NEWLINE :: string where "TT_NEWLINE \<equiv> ''NEWLINE''"
abbreviation TT_INDENT :: string where "TT_INDENT \<equiv> ''INDENT''"
abbreviation TT_DEDENT :: string where "TT_DEDENT \<equiv> ''DEDENT''"
abbreviation TT_TYPE_COMMENT :: string where "TT_TYPE_COMMENT \<equiv> ''TYPE_COMMENT''"
abbreviation TT_ENDMARKER :: string where "TT_ENDMARKER \<equiv> ''ENDMARKER''"
abbreviation TT_PLUS :: string where "TT_PLUS \<equiv> ''PLUS''"
abbreviation TT_MINUS :: string where "TT_MINUS \<equiv> ''MINUS''"
abbreviation TT_STAR :: string where "TT_STAR \<equiv> ''STAR''"
abbreviation TT_SLASH :: string where "TT_SLASH \<equiv> ''SLASH''"
abbreviation TT_DOUBLE_SLASH :: string where "TT_DOUBLE_SLASH \<equiv> ''DOUBLE_SLASH''"
abbreviation TT_PERCENT :: string where "TT_PERCENT \<equiv> ''PERCENT''"
abbreviation TT_AT :: string where "TT_AT \<equiv> ''AT''"
abbreviation TT_PIPE :: string where "TT_PIPE \<equiv> ''PIPE''"
abbreviation TT_AMPERSAND :: string where "TT_AMPERSAND \<equiv> ''AMPERSAND''"
abbreviation TT_CARET :: string where "TT_CARET \<equiv> ''CARET''"
abbreviation TT_TILDE :: string where "TT_TILDE \<equiv> ''TILDE''"
abbreviation TT_LSHIFT :: string where "TT_LSHIFT \<equiv> ''LSHIFT''"
abbreviation TT_RSHIFT :: string where "TT_RSHIFT \<equiv> ''RSHIFT''"
abbreviation TT_DOUBLE_STAR :: string where "TT_DOUBLE_STAR \<equiv> ''DOUBLE_STAR''"
abbreviation TT_EQUAL :: string where "TT_EQUAL \<equiv> ''EQUAL''"
abbreviation TT_EQEQUAL :: string where "TT_EQEQUAL \<equiv> ''EQEQUAL''"
abbreviation TT_NOTEQUAL :: string where "TT_NOTEQUAL \<equiv> ''NOTEQUAL''"
abbreviation TT_LESSEQUAL :: string where "TT_LESSEQUAL \<equiv> ''LESSEQUAL''"
abbreviation TT_GREATEREQUAL :: string where "TT_GREATEREQUAL \<equiv> ''GREATEREQUAL''"
abbreviation TT_LESS :: string where "TT_LESS \<equiv> ''LESS''"
abbreviation TT_GREATER :: string where "TT_GREATER \<equiv> ''GREATER''"
abbreviation TT_LPAREN :: string where "TT_LPAREN \<equiv> ''LPAREN''"
abbreviation TT_RPAREN :: string where "TT_RPAREN \<equiv> ''RPAREN''"
abbreviation TT_LBRACKET :: string where "TT_LBRACKET \<equiv> ''LBRACKET''"
abbreviation TT_RBRACKET :: string where "TT_RBRACKET \<equiv> ''RBRACKET''"
abbreviation TT_LBRACE :: string where "TT_LBRACE \<equiv> ''LBRACE''"
abbreviation TT_RBRACE :: string where "TT_RBRACE \<equiv> ''RBRACE''"
abbreviation TT_COMMA :: string where "TT_COMMA \<equiv> ''COMMA''"
abbreviation TT_COLON :: string where "TT_COLON \<equiv> ''COLON''"
abbreviation TT_SEMI :: string where "TT_SEMI \<equiv> ''SEMI''"
abbreviation TT_DOT :: string where "TT_DOT \<equiv> ''DOT''"
abbreviation TT_ARROW :: string where "TT_ARROW \<equiv> ''ARROW''"
abbreviation TT_PLUSEQUAL :: string where "TT_PLUSEQUAL \<equiv> ''PLUSEQUAL''"
abbreviation TT_MINEQUAL :: string where "TT_MINEQUAL \<equiv> ''MINEQUAL''"
abbreviation TT_STAREQUAL :: string where "TT_STAREQUAL \<equiv> ''STAREQUAL''"
abbreviation TT_SLASHEQUAL :: string where "TT_SLASHEQUAL \<equiv> ''SLASHEQUAL''"
abbreviation TT_PERCENTEQUAL :: string where "TT_PERCENTEQUAL \<equiv> ''PERCENTEQUAL''"
abbreviation TT_ATEQUAL :: string where "TT_ATEQUAL \<equiv> ''ATEQUAL''"
abbreviation TT_AMPEREQUAL :: string where "TT_AMPEREQUAL \<equiv> ''AMPEREQUAL''"
abbreviation TT_PIPEEQUAL :: string where "TT_PIPEEQUAL \<equiv> ''PIPEEQUAL''"
abbreviation TT_CARETEQUAL :: string where "TT_CARETEQUAL \<equiv> ''CARETEQUAL''"
abbreviation TT_LSHIFTEQUAL :: string where "TT_LSHIFTEQUAL \<equiv> ''LSHIFTEQUAL''"
abbreviation TT_RSHIFTEQUAL :: string where "TT_RSHIFTEQUAL \<equiv> ''RSHIFTEQUAL''"
abbreviation TT_DOUBLE_STAREQUAL :: string where "TT_DOUBLE_STAREQUAL \<equiv> ''DOUBLE_STAREQUAL''"
abbreviation TT_DOUBLE_SLASHEQUAL :: string where
  "TT_DOUBLE_SLASHEQUAL \<equiv> ''DOUBLE_SLASHEQUAL''"


section \<open>Faults\<close>

text \<open>
  Every exception of the lexer, the symbol table and the parser is a value. The message of
  an exception is named by a constructor that keeps the data formatted into it:
  \<^item> \<open>LexerError\<close> with the message, the line and the column;
  \<^item> \<open>ParserError\<close> with the message and the offending token;
  \<^item> \<open>RuntimeError\<close> of symtable.py: a redeclaration (scope name, symbol name), a pop
    from the empty stack, no current scope;
  \<^item> \<open>ValueError\<close> of the parser's constructor on an empty token list;
  \<^item> \<open>IndexError\<close> for \<open>indent_stack[-1]\<close> on an empty stack and \<open>KeyError\<close>
    for a missing key of \<open>_map_compare_op\<close>.
\<close>

datatype lexer_msg =
    UnexpectedChar char
  | InvalidIndent
  | InvalidNumberAfterDot
  | InvalidExponent
  | InvalidNumber string
  | UnterminatedString
  | EOFInEscape
  | NewlineInString

datatype parser_msg =
    ExpectedToken string string
  | ExpectedKeyword string
  | UnexpectedIndent
  | ExpectedNewline
  | NotAssignable
  | ExpectedParamName
  | ExpectedAtom

datatype runtime_msg =
    Redeclared string string
  | PopEmptyStack
  | NoCurrentScope

datatype error =
    LexerError lexer_msg nat nat
  | ParserError parser_msg Token
  | RuntimeError runtime_msg
  | ValueError
  | IndexError
  | KeyError string


section \<open>Symbol tables (symtable.py)\<close>

record SymbolEntry =
  sym_name :: string
  sym_kind :: string
  sym_typ :: string
  sym_scope_name :: string
  sym_offset :: "int option"

text \<open>
  A scope: its name and its entries, a dictionary kept as an association list in insertion
  order. The \<open>parent\<close> reference of a table is not a field here: a table is created only
  by \<open>push_scope\<close>, with the table below it on the stack as parent, and it leaves the
  stack before that table does, so the parent of a table on the stack is the table before it
  in the list. The stack is a list with its top at the end, as in the source.
\<close>

record SymbolTable =
  scope_name :: string
  entries :: "(string \<times> SymbolEntry) list"

type_synonym SymbolTableStack = "SymbolTable list"

definition lookup_local :: "SymbolTable \<Rightarrow> string \<Rightarrow> SymbolEntry option" where
  "lookup_local t n = map_of (entries t) n"

text \<open>\<open>SymbolTable.define\<close>: consults the entries of this table only.\<close>

definition table_define ::
  "SymbolTable \<Rightarrow> string \<Rightarrow> string \<Rightarrow> string \<Rightarrow> error + SymbolEntry \<times> SymbolTable" where
  "table_define t n k ty =
     (if n \<in> fst ` set (entries t) then Inl (RuntimeError (Redeclared (scope_name t) n))
      else
        let entry = \<lparr>sym_name = n, sym_kind = k, sym_typ = ty,
                     sym_scope_name = scope_name t, sym_offset = None\<rparr>
        in Inr (entry, t\<lparr>entries := entries t @ [(n, entry)]\<rparr>))"

definition push_scope :: "string \<Rightarrow> SymbolTableStack \<Rightarrow> SymbolTable \<times> SymbolTableStack" where
  "push_scope n st = (let t = \<lparr>scope_name = n, entries = []\<rparr> in (t, st @ [t]))"

definition pop_scope :: "SymbolTableStack \<Rightarrow> error + SymbolTable \<times> SymbolTableStack" where
  "pop_scope st =
     (if st = [] then Inl (RuntimeError PopEmptyStack) else Inr (last st, butlast st))"

definition current_scope :: "SymbolTableStack \<Rightarrow> error + SymbolTable" where
  "current_scope st = (if st = [] then Inl (RuntimeError NoCurrentScope) else Inr (last st))"

text \<open>
  \<open>SymbolTableStack.lookup\<close>: \<open>SymbolTable.lookup\<close> on the current scope, which
  tries this scope and then its parents, the tables below it from the top down.
\<close>

fun lookup_chain :: "SymbolTable list \<Rightarrow> string \<Rightarrow> SymbolEntry option" where
  "lookup_chain [] n = None"
| "lookup_chain (t # parents) n =
     (case lookup_local t n of Some e \<Rightarrow> Some e | None \<Rightarrow> lookup_chain parents n)"

definition lookup :: "SymbolTableStack \<Rightarrow> string \<Rightarrow> error + SymbolEntry option" where
  "lookup st n =
     (case current_scope st of
        Inl e \<Rightarrow> Inl e
      | Inr _ \<Rightarrow> Inr (lookup_chain (rev st) n))"

text \<open>
  \<open>SymbolTableStack.define\<close> (\<open>define\<close> is a keyword here, hence the name):
  \<open>define\<close> on the current scope, which is mutated in place; the stack with the
  updated top table is returned.
\<close>

definition stack_define ::
  "SymbolTableStack \<Rightarrow> string \<Rightarrow> string \<Rightarrow> string \<Rightarrow> error + SymbolEntry \<times> SymbolTableStack"
  where
  "stack_define st n k ty =
     (case current_scope st of
        Inl e \<Rightarrow> Inl e
      | Inr t \<Rightarrow>
          (case table_define t n k ty of
             Inl e \<Rightarrow> Inl e
           | Inr (entry, t') \<Rightarrow> Inr (entry, butlast st @ [t'])))"


section \<open>Lexer (lexer.py)\<close>

text \<open>
  A character is a code point below 256. The predicates are Python's \<open>str.isdigit\<close>,
  \<open>str.isalpha\<close>, \<open>str.isalnum\<close> and the white space of \<open>str.lstrip\<close> on that
  range.
\<close>

definition isdigit :: "char \<Rightarrow> bool" where
  "isdigit c = (let n = (of_char c :: nat) in
     (48 \<le> n \<and> n \<le> 57) \<or> n = 178 \<or> n = 179 \<or> n = 185)"

definition isalpha :: "char \<Rightarrow> bool" where
  "isalpha c = (let n = (of_char c :: nat) in
     (65 \<le> n \<and> n \<le> 90) \<or> (97 \<le> n \<and> n \<le> 122) \<or> n = 170 \<or> n = 181 \<or> n = 186 \<or>
     (192 \<le> n \<and> n \<le> 214) \<or> (216 \<le> n \<and> n \<le> 246) \<or> (248 \<le> n \<and> n \<le> 255))"

definition isalnum :: "char \<Rightarrow> bool" where
  "isalnum c = (let n = (of_char c :: nat) in
     isalpha c \<or> isdigit c \<or> (188 \<le> n \<and> n \<le> 190))"

definition isspace :: "char \<Rightarrow> bool" where
  "isspace c = (let n = (of_char c :: nat) in
     (9 \<le> n \<and> n \<le> 13) \<or> (28 \<le> n \<and> n \<le> 32) \<or> n = 133 \<or> n = 160)"

text \<open>
  \<open>float(num_str)\<close> on a text made of the characters \<open>_number\<close> collects: it raises
  \<open>ValueError\<close> when a digit is not one of \<open>0\<close> to \<open>9\<close> or when the text has two
  dots; every other text \<open>_number\<close> can build is a float literal.
\<close>

definition float_ok :: "string \<Rightarrow> bool" where
  "float_ok s =
     ((\<forall>c \<in> set s. isdigit c \<longrightarrow> 48 \<le> (of_char c :: nat) \<and> (of_char c :: nat) \<le> 57) \<and>
      length (filter (\<lambda>c. c = CHR ''.'') s) \<le> 1)"

text \<open>
  The state of a \<open>Lexer\<close>: \<open>rest\<close> is \<open>text[pos:]\<close>, the text from the cursor on.
  The indent stack has its top at the end.
\<close>

record lexer =
  rest :: string
  line :: nat
  col :: nat
  indent_stack :: "nat list"
  at_line_start :: bool

definition lexer_init :: "string \<Rightarrow> lexer" where
  "lexer_init text =
     \<lparr>rest = text, line = 1, col = 1, indent_stack = [0], at_line_start = True\<rparr>"

definition current_char :: "lexer \<Rightarrow> char option" where
  "current_char lx = (case rest lx of [] \<Rightarrow> None | c # _ \<Rightarrow> Some c)"

definition peek :: "lexer \<Rightarrow> char option" where
  "peek lx = (case rest lx of _ # c # _ \<Rightarrow> Some c | _ \<Rightarrow> None)"

definition advance :: "lexer \<Rightarrow> lexer" where
  "advance lx =
     (case rest lx of
        [] \<Rightarrow> lx
      | c # cs \<Rightarrow>
          if c = CHR 0x0A then lx\<lparr>rest := cs, line := line lx + 1, col := 1\<rparr>
          else lx\<lparr>rest := cs, col := col lx + 1\<rparr>)"

definition advance_n :: "nat \<Rightarrow> lexer \<Rightarrow> lexer" where
  "advance_n n lx = (advance ^^ n) lx"

definition peek_fragment :: "nat \<Rightarrow> lexer \<Rightarrow> string" where
  "peek_fragment n lx = take n (rest lx)"

subsection \<open>Line start and indentation\<close>

function count_indent :: "nat \<Rightarrow> lexer \<Rightarrow> nat \<times> lexer" where
  "count_indent indent lx =
     (case current_char lx of
        Some ch \<Rightarrow>
          if ch = CHR '' '' then count_indent (indent + 1) (advance lx)
          else if ch = CHR 0x09 then count_indent (indent + 4) (advance lx)
          else (indent, lx)
      | None \<Rightarrow> (indent, lx))"
  by pat_completeness auto
termination
  by (relation "measure (\<lambda>(i, lx). length (rest lx))")
     (auto simp: current_char_def advance_def split: list.splits)

declare count_indent.simps [simp del]

function dedent_loop ::
  "nat \<Rightarrow> nat \<Rightarrow> nat \<Rightarrow> Token list \<Rightarrow> nat list \<Rightarrow> Token list \<times> nat list" where
  "dedent_loop indent start_line start_col tokens stack =
     (if stack \<noteq> [] \<and> indent < last stack
      then dedent_loop indent start_line start_col
             (tokens @ [Token TT_DEDENT VNone start_line start_col]) (butlast stack)
      else (tokens, stack))"
  by pat_completeness auto
termination
  by (relation "measure (\<lambda>(i, l, c, ts, stack). length stack)") auto

declare dedent_loop.simps [simp del]

definition handle_line_start :: "Token list \<Rightarrow> lexer \<Rightarrow> error + Token list \<times> lexer" where
  "handle_line_start tokens lx0 =
     (let lx = lx0\<lparr>at_line_start := False\<rparr>;
          start_line = line lx;
          start_col = col lx
      in case count_indent 0 lx of (indent, lx1) \<Rightarrow>
           let ch = current_char lx1 in
           if ch = Some (CHR 0x0A) \<or> ch = None \<or> ch = Some (CHR ''#'') then Inr (tokens, lx1)
           else if indent_stack lx1 = [] then Inl IndexError
           else
             let prev_indent = last (indent_stack lx1) in
             if indent > prev_indent then
               Inr (tokens @ [Token TT_INDENT VNone start_line start_col],
                    lx1\<lparr>indent_stack := indent_stack lx1 @ [indent]\<rparr>)
             else if indent < prev_indent then
               (case dedent_loop indent start_line start_col tokens (indent_stack lx1) of
                  (tokens1, stack1) \<Rightarrow>
                    if stack1 = [] then Inl IndexError
                    else if indent \<noteq> last stack1
                    then Inl (LexerError InvalidIndent start_line start_col)
                    else Inr (tokens1, lx1\<lparr>indent_stack := stack1\<rparr>))
             else Inr (tokens, lx1))"

subsection \<open>Comments\<close>

function comment_loop :: "string \<Rightarrow> lexer \<Rightarrow> string \<times> lexer" where
  "comment_loop comment_text lx =
     (case current_char lx of
        Some ch \<Rightarrow>
          if ch \<noteq> CHR 0x0A then comment_loop (comment_text @ [ch]) (advance lx)
          else (comment_text, lx)
      | None \<Rightarrow> (comment_text, lx))"
  by pat_completeness auto
termination
  by (relation "measure (\<lambda>(t, lx). length (rest lx))")
     (auto simp: current_char_def advance_def split: list.splits)

declare comment_loop.simps [simp del]

definition handle_comment :: "Token list \<Rightarrow> lexer \<Rightarrow> Token list \<times> lexer" where
  "handle_comment tokens lx =
     (let start_line = line lx; start_col = col lx in
      case comment_loop [] lx of (comment_text, lx1) \<Rightarrow>
        let stripped = dropWhile isspace (dropWhile (\<lambda>c. c = CHR ''#'') comment_text) in
        if take 5 stripped = ''type:''
        then (tokens @ [Token TT_TYPE_COMMENT (VStr stripped) start_line start_col], lx1)
        else (tokens, lx1))"

subsection \<open>Numbers\<close>

function digits_loop :: "string \<Rightarrow> lexer \<Rightarrow> string \<times> lexer" where
  "digits_loop num_str lx =
     (case current_char lx of
        Some ch \<Rightarrow>
          if isdigit ch then digits_loop (num_str @ [ch]) (advance lx) else (num_str, lx)
      | None \<Rightarrow> (num_str, lx))"
  by pat_completeness auto
termination
  by (relation "measure (\<lambda>(t, lx). length (rest lx))")
     (auto simp: current_char_def advance_def split: list.splits)

declare digits_loop.simps [simp del]

text \<open>The three parts of \<open>_number\<close> before the conversion, in the order of the source.\<close>

definition number_dot :: "nat \<Rightarrow> nat \<Rightarrow> lexer \<Rightarrow> error + string \<times> lexer" where
  "number_dot start_line start_col lx =
     (if current_char lx = Some (CHR ''.'') then
        let lx1 = advance lx in
        (case current_char lx1 of
           None \<Rightarrow> Inl (LexerError InvalidNumberAfterDot start_line start_col)
         | Some ch \<Rightarrow>
             if \<not> isdigit ch then Inl (LexerError InvalidNumberAfterDot start_line start_col)
             else Inr (''.'', lx1))
      else Inr ([], lx))"

definition number_fraction :: "string \<Rightarrow> lexer \<Rightarrow> string \<times> lexer" where
  "number_fraction num_str lx =
     (if current_char lx = Some (CHR ''.'') then digits_loop (num_str @ ''.'') (advance lx)
      else (num_str, lx))"

definition number_exponent :: "string \<Rightarrow> lexer \<Rightarrow> error + string \<times> lexer" where
  "number_exponent num_str lx =
     (case current_char lx of
        None \<Rightarrow> Inr (num_str, lx)
      | Some ch \<Rightarrow>
          if ch = CHR ''e'' \<or> ch = CHR ''E'' then
            let num_str1 = num_str @ [ch]; lx1 = advance lx in
            (case (case current_char lx1 of
                     None \<Rightarrow> (num_str1, lx1)
                   | Some sg \<Rightarrow>
                       if sg = CHR ''+'' \<or> sg = CHR ''-'' then (num_str1 @ [sg], advance lx1)
                       else (num_str1, lx1)) of
               (num_str2, lx2) \<Rightarrow>
                 (case current_char lx2 of
                    None \<Rightarrow> Inl (LexerError InvalidExponent (line lx2) (col lx2))
                  | Some d \<Rightarrow>
                      if \<not> isdigit d then Inl (LexerError InvalidExponent (line lx2) (col lx2))
                      else Inr (digits_loop num_str2 lx2)))
          else Inr (num_str, lx))"

definition number :: "lexer \<Rightarrow> error + Token \<times> lexer" where
  "number lx =
     (let start_line = line lx; start_col = col lx in
      case number_dot start_line start_col lx of
        Inl e \<Rightarrow> Inl e
      | Inr (s0, lx0) \<Rightarrow>
          (case digits_loop s0 lx0 of (s1, lx1) \<Rightarrow>
           case number_fraction s1 lx1 of (s2, lx2) \<Rightarrow>
           case number_exponent s2 lx2 of
             Inl e \<Rightarrow> Inl e
           | Inr (num_str, lx3) \<Rightarrow>
               if float_ok num_str then Inr (Token TT_NUMBER (VNum num_str) start_line start_col, lx3)
               else Inl (LexerError (InvalidNumber num_str) start_line start_col)))"

subsection \<open>Identifiers\<close>

function ident_loop :: "string \<Rightarrow> lexer \<Rightarrow> string \<times> lexer" where
  "ident_loop ident lx =
     (case current_char lx of
        Some ch \<Rightarrow>
          if isalnum ch \<or> ch = CHR ''_'' then ident_loop (ident @ [ch]) (advance lx)
          else (ident, lx)
      | None \<Rightarrow> (ident, lx))"
  by pat_completeness auto
termination
  by (relation "measure (\<lambda>(t, lx). length (rest lx))")
     (auto simp: current_char_def advance_def split: list.splits)

declare ident_loop.simps [simp del]

definition identifier_or_keyword :: "lexer \<Rightarrow> Token \<times> lexer" where
  "identifier_or_keyword lx =
     (case ident_loop [] lx of (ident, lx1) \<Rightarrow>
        (Token TT_NAME (VStr ident) (line lx) (col lx), lx1))"

subsection \<open>Strings\<close>

definition unescape :: "char \<Rightarrow> char \<Rightarrow> char" where
  "unescape quote esc =
     (if esc = CHR ''n'' then CHR 0x0A
      else if esc = CHR ''t'' then CHR 0x09
      else if esc = CHR ''r'' then CHR 0x0D
      else if esc = CHR 0x5C then CHR 0x5C
      else if esc = quote then quote
      else esc)"

function string_loop ::
  "nat \<Rightarrow> nat \<Rightarrow> char \<Rightarrow> string \<Rightarrow> lexer \<Rightarrow> error + string \<times> lexer" where
  "string_loop start_line start_col quote value_chars lx =
     (case current_char lx of
        None \<Rightarrow> Inl (LexerError UnterminatedString start_line start_col)
      | Some ch \<Rightarrow>
          if ch = CHR 0x5C then
            (case current_char (advance lx) of
               None \<Rightarrow> Inl (LexerError EOFInEscape (line (advance lx)) (col (advance lx)))
             | Some esc \<Rightarrow>
                 string_loop start_line start_col quote (value_chars @ [unescape quote esc])
                   (advance (advance lx)))
          else if ch = quote then Inr (value_chars, advance lx)
          else if ch = CHR 0x0A then Inl (LexerError NewlineInString (line lx) (col lx))
          else string_loop start_line start_col quote (value_chars @ [ch]) (advance lx))"
  by pat_completeness auto
termination
  by (relation "measure (\<lambda>(l, c, q, v, lx). length (rest lx))")
     (auto simp: current_char_def advance_def split: list.splits)

declare string_loop.simps [simp del]

definition string_literal :: "lexer \<Rightarrow> error + Token \<times> lexer" where
  "string_literal lx =
     (case current_char lx of
        None \<Rightarrow> Inl (LexerError UnterminatedString (line lx) (col lx))
      | Some quote \<Rightarrow>
          (case string_loop (line lx) (col lx) quote [] (advance lx) of
             Inl e \<Rightarrow> Inl e
           | Inr (v, lx1) \<Rightarrow> Inr (Token TT_STRING (VStr v) (line lx) (col lx), lx1)))"

subsection \<open>Operators and punctuation\<close>

definition multi_ops :: "(string \<times> string) list" where
  "multi_ops =
     [(''>>='', TT_RSHIFTEQUAL), (''<<='', TT_LSHIFTEQUAL), (''**='', TT_DOUBLE_STAREQUAL),
      (''//='', TT_DOUBLE_SLASHEQUAL), (''=='', TT_EQEQUAL), (''!='', TT_NOTEQUAL),
      (''<='', TT_LESSEQUAL), (''>='', TT_GREATEREQUAL), (''<<'', TT_LSHIFT),
      (''>>'', TT_RSHIFT), (''**'', TT_DOUBLE_STAR), (''//'', TT_DOUBLE_SLASH),
      (''+='', TT_PLUSEQUAL), (''-='', TT_MINEQUAL), (''*='', TT_STAREQUAL),
      (''/='', TT_SLASHEQUAL), (''%='', TT_PERCENTEQUAL), (''@='', TT_ATEQUAL),
      (''&='', TT_AMPEREQUAL), (''|='', TT_PIPEEQUAL), (''^='', TT_CARETEQUAL),
      (''->'', TT_ARROW)]"

definition single_map :: "(char \<times> string) list" where
  "single_map =
     [(CHR ''+'', TT_PLUS), (CHR ''-'', TT_MINUS), (CHR ''*'', TT_STAR), (CHR ''/'', TT_SLASH),
      (CHR ''%'', TT_PERCENT), (CHR ''@'', TT_AT), (CHR ''|'', TT_PIPE),
      (CHR ''&'', TT_AMPERSAND), (CHR ''^'', TT_CARET), (CHR ''~'', TT_TILDE),
      (CHR ''='', TT_EQUAL), (CHR ''<'', TT_LESS), (CHR ''>'', TT_GREATER),
      (CHR ''('', TT_LPAREN), (CHR '')'', TT_RPAREN), (CHR ''['', TT_LBRACKET),
      (CHR '']'', TT_RBRACKET), (CHR ''{'', TT_LBRACE), (CHR ''}'', TT_RBRACE),
      (CHR '','', TT_COMMA), (CHR '':'', TT_COLON), (CHR '';'', TT_SEMI), (CHR ''.'', TT_DOT)]"

definition operator_or_punct :: "lexer \<Rightarrow> (Token \<times> lexer) option" where
  "operator_or_punct lx =
     (case current_char lx of
        None \<Rightarrow> None
      | Some ch \<Rightarrow>
          (case map_of multi_ops (peek_fragment 3 lx) of
             Some ty \<Rightarrow>
               Some (Token ty (VStr (peek_fragment 3 lx)) (line lx) (col lx), advance_n 3 lx)
           | None \<Rightarrow>
               (case map_of multi_ops (peek_fragment 2 lx) of
                  Some ty \<Rightarrow>
                    Some (Token ty (VStr (peek_fragment 2 lx)) (line lx) (col lx),
                          advance_n 2 lx)
                | None \<Rightarrow>
                    (case map_of single_map ch of
                       Some ty \<Rightarrow>
                         Some (Token ty (VStr [ch]) (line lx) (col lx), advance lx)
                     | None \<Rightarrow> None))))"

subsection \<open>The main loop\<close>

text \<open>
  Every scanner leaves a text that is no longer than the one it started from, and shorter
  where the main loop calls it; that is why the main loop ends.
\<close>

lemma advance_le: "length (rest (advance lx)) \<le> length (rest lx)"
  by (simp add: advance_def split: list.splits)

lemma advance_less_cc:
  "current_char lx = Some c \<Longrightarrow> length (rest (advance lx)) < length (rest lx)"
  by (simp add: advance_def current_char_def split: list.splits)

lemma advance_n_le: "length (rest (advance_n n lx)) \<le> length (rest lx)"
proof (induction n)
  case 0
  show ?case by (simp add: advance_n_def)
next
  case (Suc n)
  have "length (rest (advance_n (Suc n) lx)) \<le> length (rest (advance_n n lx))"
    by (simp add: advance_n_def advance_le)
  with Suc show ?case by linarith
qed

lemma advance_n_less:
  assumes "current_char lx = Some c"
  shows "length (rest (advance_n (Suc n) lx)) < length (rest lx)"
proof -
  have "advance_n (Suc n) lx = advance_n n (advance lx)"
    by (simp add: advance_n_def funpow_swap1)
  then show ?thesis
    using advance_n_le [of n "advance lx"] advance_less_cc [OF assms] by simp
qed

lemma count_indent_le: "length (rest (snd (count_indent i lx))) \<le> length (rest lx)"
proof (induction i lx rule: count_indent.induct)
  case (1 indent lx)
  show ?case
  proof (cases "current_char lx")
    case None
    then show ?thesis by (subst count_indent.simps) simp
  next
    case (Some ch)
    consider "ch = CHR '' ''" | "ch \<noteq> CHR '' ''" "ch = CHR 0x09"
      | "ch \<noteq> CHR '' ''" "ch \<noteq> CHR 0x09" by blast
    then show ?thesis
    proof cases
      case 1
      have "length (rest (snd (count_indent (indent + 1) (advance lx)))) \<le> length (rest (advance lx))"
        using "1.IH"(1) [OF Some 1] .
      with advance_le [of lx] Some 1 show ?thesis
        by (subst count_indent.simps) simp
    next
      case 2
      have "length (rest (snd (count_indent (indent + 4) (advance lx)))) \<le> length (rest (advance lx))"
        using "1.IH"(2) [OF Some 2] .
      with advance_le [of lx] Some 2 show ?thesis
        by (subst count_indent.simps) simp
    next
      case 3
      with Some show ?thesis by (subst count_indent.simps) simp
    qed
  qed
qed


lemma handle_line_start_le:
  assumes "handle_line_start tokens lx = Inr (tokens', lx')"
  shows "length (rest lx') \<le> length (rest lx)"
proof -
  obtain indent lx1 where ci: "count_indent 0 (lx\<lparr>at_line_start := False\<rparr>) = (indent, lx1)"
    by (cases "count_indent 0 (lx\<lparr>at_line_start := False\<rparr>)")
  have "length (rest lx1) \<le> length (rest lx)"
    using count_indent_le [of 0 "lx\<lparr>at_line_start := False\<rparr>"] ci by simp
  moreover have "rest lx' = rest lx1"
    using assms ci
    by (simp add: handle_line_start_def Let_def split: if_splits prod.splits) auto
  ultimately show ?thesis by simp
qed

lemma comment_loop_le: "length (rest (snd (comment_loop t lx))) \<le> length (rest lx)"
proof (induction t lx rule: comment_loop.induct)
  case (1 t lx)
  show ?case
  proof (cases "current_char lx")
    case None
    then show ?thesis by (subst comment_loop.simps) simp
  next
    case (Some ch)
    show ?thesis
    proof (cases "ch \<noteq> CHR 0x0A")
      case True
      have "length (rest (snd (comment_loop (t @ [ch]) (advance lx)))) \<le> length (rest (advance lx))"
        using "1.IH" [OF Some True] .
      with advance_le [of lx] Some True show ?thesis
        by (subst comment_loop.simps) simp
    next
      case False
      with Some show ?thesis by (subst comment_loop.simps) simp
    qed
  qed
qed

lemma handle_comment_less:
  assumes "current_char lx = Some (CHR ''#'')"
  shows "length (rest (snd (handle_comment tokens lx))) < length (rest lx)"
proof -
  have "comment_loop [] lx = comment_loop [CHR ''#''] (advance lx)"
    using assms by (subst comment_loop.simps) simp
  then have "length (rest (snd (comment_loop [] lx))) < length (rest lx)"
    using comment_loop_le [of "[CHR ''#'']" "advance lx"] advance_less_cc [OF assms] by simp
  then show ?thesis
    by (auto simp: handle_comment_def Let_def split: prod.splits)
qed

lemma digits_loop_le: "length (rest (snd (digits_loop t lx))) \<le> length (rest lx)"
proof (induction t lx rule: digits_loop.induct)
  case (1 t lx)
  show ?case
  proof (cases "current_char lx")
    case None
    then show ?thesis by (subst digits_loop.simps) simp
  next
    case (Some ch)
    show ?thesis
    proof (cases "isdigit ch")
      case True
      have "length (rest (snd (digits_loop (t @ [ch]) (advance lx)))) \<le> length (rest (advance lx))"
        using "1.IH" [OF Some True] .
      with advance_le [of lx] Some True show ?thesis
        by (subst digits_loop.simps) simp
    next
      case False
      with Some show ?thesis by (subst digits_loop.simps) simp
    qed
  qed
qed

lemma digits_loop_less:
  assumes "current_char lx = Some c" and "isdigit c"
  shows "length (rest (snd (digits_loop t lx))) < length (rest lx)"
proof -
  have "digits_loop t lx = digits_loop (t @ [c]) (advance lx)"
    using assms by (subst digits_loop.simps) simp
  then show ?thesis
    using digits_loop_le [of "t @ [c]" "advance lx"] advance_less_cc [OF assms(1)] by simp
qed

lemma ident_loop_le: "length (rest (snd (ident_loop t lx))) \<le> length (rest lx)"
proof (induction t lx rule: ident_loop.induct)
  case (1 t lx)
  show ?case
  proof (cases "current_char lx")
    case None
    then show ?thesis by (subst ident_loop.simps) simp
  next
    case (Some ch)
    show ?thesis
    proof (cases "isalnum ch \<or> ch = CHR ''_''")
      case True
      have "length (rest (snd (ident_loop (t @ [ch]) (advance lx)))) \<le> length (rest (advance lx))"
        using "1.IH" [OF Some True] .
      with advance_le [of lx] Some True show ?thesis
        by (subst ident_loop.simps) simp
    next
      case False
      with Some show ?thesis by (subst ident_loop.simps) simp
    qed
  qed
qed

lemma identifier_less:
  assumes "current_char lx = Some c" and "isalpha c \<or> c = CHR ''_''"
  shows "length (rest (snd (identifier_or_keyword lx))) < length (rest lx)"
proof -
  have "isalnum c \<or> c = CHR ''_''"
    using assms(2) by (auto simp: isalnum_def Let_def)
  then have "ident_loop [] lx = ident_loop [c] (advance lx)"
    using assms(1) by (subst ident_loop.simps) simp
  then have "length (rest (snd (ident_loop [] lx))) < length (rest lx)"
    using ident_loop_le [of "[c]" "advance lx"] advance_less_cc [OF assms(1)] by simp
  then show ?thesis
    by (auto simp: identifier_or_keyword_def split: prod.splits)
qed


lemma string_loop_le:
  "string_loop l c q v lx = Inr (v', lx') \<Longrightarrow> length (rest lx') \<le> length (rest lx)"
proof (induction l c q v lx rule: string_loop.induct)
  case (1 l c q v lx)
  show ?case
  proof (cases "current_char lx")
    case None
    with "1.prems" show ?thesis by (subst (asm) string_loop.simps) simp
  next
    case (Some ch)
    consider (esc) "ch = CHR 0x5C" | (quote) "ch \<noteq> CHR 0x5C" "ch = q"
      | (nl) "ch \<noteq> CHR 0x5C" "ch \<noteq> q" "ch = CHR 0x0A"
      | (other) "ch \<noteq> CHR 0x5C" "ch \<noteq> q" "ch \<noteq> CHR 0x0A" by blast
    then show ?thesis
    proof cases
      case esc
      show ?thesis
      proof (cases "current_char (advance lx)")
        case None
        with "1.prems" Some esc show ?thesis by (subst (asm) string_loop.simps) simp
      next
        case (Some e)
        have "string_loop l c q (v @ [unescape q e]) (advance (advance lx)) = Inr (v', lx')"
          using "1.prems" \<open>current_char lx = Some ch\<close> esc Some
          by (subst (asm) string_loop.simps) simp
        then have "length (rest lx') \<le> length (rest (advance (advance lx)))"
          using "1.IH"(1) [OF \<open>current_char lx = Some ch\<close> esc Some] by simp
        with advance_le [of lx] advance_le [of "advance lx"] show ?thesis by linarith
      qed
    next
      case quote
      have "lx' = advance lx"
        using "1.prems" Some quote by (subst (asm) string_loop.simps) simp
      with advance_le [of lx] show ?thesis by simp
    next
      case nl
      with "1.prems" Some show ?thesis by (subst (asm) string_loop.simps) simp
    next
      case other
      have "string_loop l c q (v @ [ch]) (advance lx) = Inr (v', lx')"
        using "1.prems" Some other by (subst (asm) string_loop.simps) simp
      then have "length (rest lx') \<le> length (rest (advance lx))"
        using "1.IH"(2) [OF Some other] by simp
      with advance_le [of lx] show ?thesis by linarith
    qed
  qed
qed

lemma string_literal_less:
  assumes "string_literal lx = Inr (tok, lx')"
  shows "length (rest lx') < length (rest lx)"
proof (cases "current_char lx")
  case None
  with assms show ?thesis by (simp add: string_literal_def)
next
  case (Some quote)
  then obtain v where "string_loop (line lx) (col lx) quote [] (advance lx) = Inr (v, lx')"
    using assms by (auto simp: string_literal_def split: sum.splits)
  then have "length (rest lx') \<le> length (rest (advance lx))"
    by (rule string_loop_le)
  with advance_less_cc [OF Some] show ?thesis by linarith
qed

lemma operator_less:
  assumes "operator_or_punct lx = Some (tok, lx')"
  shows "length (rest lx') < length (rest lx)"
proof (cases "current_char lx")
  case None
  with assms show ?thesis by (simp add: operator_or_punct_def)
next
  case (Some ch)
  have "lx' = advance_n (Suc 2) lx \<or> lx' = advance_n (Suc 1) lx \<or> lx' = advance lx"
    using assms Some
    by (auto simp: operator_or_punct_def numeral_3_eq_3 numeral_2_eq_2 split: option.splits)
  with advance_n_less [OF Some, of 2] advance_n_less [OF Some, of 1] advance_less_cc [OF Some]
  show ?thesis by auto
qed

lemma number_dot_le:
  "number_dot l c lx = Inr (s, lx') \<Longrightarrow> length (rest lx') \<le> length (rest lx)"
  using advance_le [of lx]
  by (auto simp: number_dot_def Let_def split: if_splits option.splits)

lemma number_dot_less:
  "number_dot l c lx = Inr (s, lx') \<Longrightarrow> current_char lx = Some (CHR ''.'') \<Longrightarrow>
   length (rest lx') < length (rest lx)"
  using advance_less_cc [of lx "CHR ''.''"]
  by (auto simp: number_dot_def Let_def split: if_splits option.splits)

lemma number_dot_digit:
  "number_dot l c lx = Inr (s, lx') \<Longrightarrow> current_char lx = Some d \<Longrightarrow> d \<noteq> CHR ''.'' \<Longrightarrow>
   lx' = lx"
  by (auto simp: number_dot_def Let_def split: if_splits option.splits)

lemma number_fraction_le:
  "length (rest (snd (number_fraction s lx))) \<le> length (rest lx)"
  using digits_loop_le [of "s @ ''.''" "advance lx"] advance_le [of lx]
  by (auto simp: number_fraction_def)

lemma number_exponent_le:
  assumes "number_exponent s lx = Inr (s', lx')"
  shows "length (rest lx') \<le> length (rest lx)"
proof (cases "current_char lx")
  case None
  with assms show ?thesis by (simp add: number_exponent_def)
next
  case (Some ch)
  show ?thesis
  proof (cases "ch = CHR ''e'' \<or> ch = CHR ''E''")
    case False
    with assms Some show ?thesis by (auto simp: number_exponent_def)
  next
    case True
    obtain n2 lx2 where
      sg: "(case current_char (advance lx) of
              None \<Rightarrow> (s @ [ch], advance lx)
            | Some sg \<Rightarrow>
                if sg = CHR ''+'' \<or> sg = CHR ''-'' then ((s @ [ch]) @ [sg], advance (advance lx))
                else (s @ [ch], advance lx)) = (n2, lx2)"
      by (cases "(case current_char (advance lx) of
              None \<Rightarrow> (s @ [ch], advance lx)
            | Some sg \<Rightarrow>
                if sg = CHR ''+'' \<or> sg = CHR ''-'' then ((s @ [ch]) @ [sg], advance (advance lx))
                else (s @ [ch], advance lx))")
    have l2: "length (rest lx2) \<le> length (rest lx)"
      using sg advance_le [of lx] advance_le [of "advance lx"]
      by (auto split: option.splits if_splits)
    have "(s', lx') = digits_loop n2 lx2"
      using assms Some True sg
      by (auto simp: number_exponent_def Let_def split: option.splits if_splits)
    then have "lx' = snd (digits_loop n2 lx2)"
      by (metis snd_conv)
    with digits_loop_le [of n2 lx2] l2 show ?thesis by simp
  qed
qed

lemma number_less:
  assumes "number lx = Inr (tok, lx')" and "current_char lx = Some c"
    and "isdigit c \<or> c = CHR ''.''"
  shows "length (rest lx') < length (rest lx)"
proof -
  obtain s0 lx0 where d: "number_dot (line lx) (col lx) lx = Inr (s0, lx0)"
    using assms(1) by (auto simp: number_def Let_def split: sum.splits)
  obtain s1 lx1 where i: "digits_loop s0 lx0 = (s1, lx1)"
    by (cases "digits_loop s0 lx0")
  obtain s2 lx2 where f: "number_fraction s1 lx1 = (s2, lx2)"
    by (cases "number_fraction s1 lx1")
  obtain s3 where e: "number_exponent s2 lx2 = Inr (s3, lx')"
    using assms(1) d i f by (auto simp: number_def Let_def split: sum.splits if_splits)
  have le2: "length (rest lx2) \<le> length (rest lx1)"
    using number_fraction_le [of s1 lx1] f by simp
  have le3: "length (rest lx') \<le> length (rest lx2)"
    using number_exponent_le [OF e] .
  have "length (rest lx1) < length (rest lx)"
  proof (cases "c = CHR ''.''")
    case True
    then have "length (rest lx0) < length (rest lx)"
      using number_dot_less [OF d] assms(2) by simp
    moreover have "length (rest lx1) \<le> length (rest lx0)"
      using digits_loop_le [of s0 lx0] i by simp
    ultimately show ?thesis by linarith
  next
    case False
    then have "lx0 = lx"
      using number_dot_digit [OF d assms(2)] by simp
    moreover have "isdigit c" using assms(3) False by simp
    ultimately show ?thesis
      using digits_loop_less [OF assms(2), of s0] i by simp
  qed
  with le2 le3 show ?thesis by linarith
qed

lemma line_start_le:
  assumes "(if at_line_start lx then handle_line_start tokens lx else Inr (tokens, lx)) =
             Inr (tokens1, lx1)"
  shows "length (rest lx1) \<le> length (rest lx)"
proof (cases "at_line_start lx")
  case True
  with assms show ?thesis by (simp add: handle_line_start_le)
next
  case False
  with assms show ?thesis by simp
qed

text \<open>
  The \<open>while True\<close> loop of \<open>tokenize\<close>, up to its \<open>break\<close>: the tokens so far
  and the lexer go in, the tokens and the lexer at the end of the text come out.
\<close>

function tokenize_loop :: "Token list \<Rightarrow> lexer \<Rightarrow> error + Token list \<times> lexer" where
  "tokenize_loop tokens lx =
     (case current_char lx of
        None \<Rightarrow> Inr (tokens, lx)
      | Some c0 \<Rightarrow>
          (case (if at_line_start lx then handle_line_start tokens lx else Inr (tokens, lx)) of
             Inl e \<Rightarrow> Inl e
           | Inr (tokens1, lx1) \<Rightarrow>
               (case current_char lx1 of
                  None \<Rightarrow> Inr (tokens1, lx1)
                | Some ch \<Rightarrow>
                    if ch = CHR '' '' \<or> ch = CHR 0x09 \<or> ch = CHR 0x0D then
                      tokenize_loop tokens1 (advance lx1)
                    else if ch = CHR ''#'' then
                      tokenize_loop (fst (handle_comment tokens1 lx1))
                        (snd (handle_comment tokens1 lx1))
                    else if ch = CHR 0x0A then
                      tokenize_loop
                        (tokens1 @ [Token TT_NEWLINE (VStr [CHR 0x0A]) (line lx1) (col lx1)])
                        ((advance lx1)\<lparr>at_line_start := True\<rparr>)
                    else if isdigit ch \<or>
                        (ch = CHR ''.'' \<and> (case peek lx1 of None \<Rightarrow> False | Some d \<Rightarrow> isdigit d))
                    then
                      (case number lx1 of
                         Inl e \<Rightarrow> Inl e
                       | Inr (tok, lx2) \<Rightarrow> tokenize_loop (tokens1 @ [tok]) lx2)
                    else if isalpha ch \<or> ch = CHR ''_'' then
                      tokenize_loop (tokens1 @ [fst (identifier_or_keyword lx1)])
                        (snd (identifier_or_keyword lx1))
                    else if ch = CHR 0x22 \<or> ch = CHR 0x27 then
                      (case string_literal lx1 of
                         Inl e \<Rightarrow> Inl e
                       | Inr (tok, lx2) \<Rightarrow> tokenize_loop (tokens1 @ [tok]) lx2)
                    else
                      (case operator_or_punct lx1 of
                         Some (tok, lx2) \<Rightarrow> tokenize_loop (tokens1 @ [tok]) lx2
                       | None \<Rightarrow>
                           Inl (LexerError (UnexpectedChar ch) (line lx1) (col lx1))))))"
  by pat_completeness auto
termination
proof (relation "measure (\<lambda>(tokens, lx). length (rest lx))", goal_cases)
  case 1
  show ?case by simp
next
  case (2 tokens lx c0 b tokens1 lx1 ch)
  then have "length (rest lx1) \<le> length (rest lx)"
    using line_start_le [of lx tokens tokens1 lx1] by simp
  with advance_less_cc [OF 2(4)] show ?case by simp
next
  case (3 tokens lx c0 b tokens1 lx1 ch)
  then have "length (rest lx1) \<le> length (rest lx)"
    using line_start_le [of lx tokens tokens1 lx1] by simp
  moreover have "current_char lx1 = Some (CHR ''#'')" using 3 by simp
  ultimately show ?case
    using handle_comment_less [of lx1 tokens1] by (simp add: case_prod_beta)
next
  case (4 tokens lx c0 b tokens1 lx1 ch)
  then have "length (rest lx1) \<le> length (rest lx)"
    using line_start_le [of lx tokens tokens1 lx1] by simp
  with advance_less_cc [OF 4(4)] show ?case by simp
next
  case (5 tokens lx c0 b tokens1 lx1 ch r tok lx2)
  then have "length (rest lx1) \<le> length (rest lx)"
    using line_start_le [of lx tokens tokens1 lx1] by simp
  moreover have "number lx1 = Inr (tok, lx2)" using 5 by simp
  moreover have "isdigit ch \<or> ch = CHR ''.''" using 5 by auto
  ultimately show ?case
    using number_less [of lx1 tok lx2 ch] 5(4) by simp
next
  case (6 tokens lx c0 b tokens1 lx1 ch)
  then have "length (rest lx1) \<le> length (rest lx)"
    using line_start_le [of lx tokens tokens1 lx1] by simp
  moreover have "isalpha ch \<or> ch = CHR ''_''" using 6 by simp
  ultimately show ?case
    using identifier_less [OF 6(4)] by (simp add: case_prod_beta)
next
  case (7 tokens lx c0 b tokens1 lx1 ch r tok lx2)
  then have "length (rest lx1) \<le> length (rest lx)"
    using line_start_le [of lx tokens tokens1 lx1] by simp
  moreover have "string_literal lx1 = Inr (tok, lx2)" using 7 by simp
  ultimately show ?case
    using string_literal_less [of lx1 tok lx2] by simp
next
  case (8 tokens lx c0 b tokens1 lx1 ch r tok lx2)
  then have "length (rest lx1) \<le> length (rest lx)"
    using line_start_le [of lx tokens tokens1 lx1] by simp
  moreover have "operator_or_punct lx1 = Some (tok, lx2)" using 8 by simp
  ultimately show ?case
    using operator_less [of lx1 tok lx2] by simp
qed

declare tokenize_loop.simps [simp del]

function flush_dedents :: "nat \<Rightarrow> nat \<Rightarrow> Token list \<Rightarrow> nat list \<Rightarrow> Token list \<times> nat list" where
  "flush_dedents l c tokens stack =
     (if length stack > 1
      then flush_dedents l c (tokens @ [Token TT_DEDENT VNone l c]) (butlast stack)
      else (tokens, stack))"
  by pat_completeness auto
termination
  by (relation "measure (\<lambda>(l, c, ts, stack). length stack)") auto

declare flush_dedents.simps [simp del]

text \<open>
  \<open>Lexer(text).tokenize()\<close>: the loop, the trailing NEWLINE when the last token is not
  one, the pending DEDENTs, the ENDMARKER.
\<close>

definition tokenize :: "string \<Rightarrow> error + Token list" where
  "tokenize text =
     (case tokenize_loop [] (lexer_init text) of
        Inl e \<Rightarrow> Inl e
      | Inr (tokens, lx) \<Rightarrow>
          let tokens1 =
                (if tokens \<noteq> [] \<and> tok_type (last tokens) \<noteq> TT_NEWLINE
                 then tokens @ [Token TT_NEWLINE (VStr [CHR 0x0A]) (line lx) (col lx)]
                 else tokens)
          in case flush_dedents (line lx) (col lx) tokens1 (indent_stack lx) of
               (tokens2, stack) \<Rightarrow>
                 Inr (tokens2 @ [Token TT_ENDMARKER VNone (line lx) (col lx)]))"

subsection \<open>Counting tokens\<close>

text \<open>
  The number of tokens of one type, and the relation between the tokens produced so far and
  the indent stack: the stack starts with the base level 0, and every level above the base
  is an INDENT that no DEDENT has closed yet. \<open>line_start\<close> names the first step of an
  iteration of the main loop.
\<close>

definition count_type :: "string \<Rightarrow> Token list \<Rightarrow> nat" where
  "count_type ty tokens = length (filter (\<lambda>t. tok_type t = ty) tokens)"

definition balanced :: "Token list \<Rightarrow> nat list \<Rightarrow> bool" where
  "balanced tokens stack \<longleftrightarrow>
     stack \<noteq> [] \<and> hd stack = 0 \<and>
     count_type TT_INDENT tokens + 1 = count_type TT_DEDENT tokens + length stack"

definition line_start :: "Token list \<Rightarrow> lexer \<Rightarrow> error + Token list \<times> lexer" where
  "line_start tokens lx =
     (if at_line_start lx then handle_line_start tokens lx else Inr (tokens, lx))"


section \<open>Three-address code (codegen3ac.py)\<close>

record TACInstr =
  op :: string
  arg1 :: "string option"
  arg2 :: "string option"
  result :: "string option"
  label :: "string option"
  comment :: "string option"

text \<open>The fields of a \<open>CodeGenerator3AC\<close> object. Both label stacks grow at the end.\<close>

record gen =
  code :: "TACInstr list"
  temp_count :: nat
  label_count :: nat
  break_stack :: "string list"
  continue_stack :: "string list"

definition gen_init :: gen where
  "gen_init = \<lparr>code = [], temp_count = 0, label_count = 0,
               break_stack = [], continue_stack = []\<rparr>"

text \<open>Python's \<open>str(n)\<close> for a natural number: its decimal digits.\<close>

definition digit_char :: "nat \<Rightarrow> char" where
  "digit_char d = ''0123456789'' ! d"

fun str_nat :: "nat \<Rightarrow> string" where
  "str_nat n =
     (if n < 10 then [digit_char n]
      else str_nat (n div 10) @ [digit_char (n mod 10)])"

declare str_nat.simps [simp del]

definition new_temp :: "gen \<Rightarrow> string \<times> gen" where
  "new_temp g =
     (CHR ''t'' # str_nat (temp_count g + 1), g\<lparr>temp_count := temp_count g + 1\<rparr>)"

definition new_label :: "string \<Rightarrow> gen \<Rightarrow> string \<times> gen" where
  "new_label prefix g =
     (prefix @ str_nat (label_count g + 1), g\<lparr>label_count := label_count g + 1\<rparr>)"

definition instr ::
  "string \<Rightarrow> string option \<Rightarrow> string option \<Rightarrow> string option \<Rightarrow> string option
     \<Rightarrow> string option \<Rightarrow> TACInstr" where
  "instr o1 a1 a2 r l c =
     \<lparr>op = o1, arg1 = a1, arg2 = a2, result = r, label = l, comment = c\<rparr>"

definition emit ::
  "string \<Rightarrow> string option \<Rightarrow> string option \<Rightarrow> string option \<Rightarrow> string option
     \<Rightarrow> string option \<Rightarrow> gen \<Rightarrow> gen" where
  "emit o1 a1 a2 r l c g = g\<lparr>code := code g @ [instr o1 a1 a2 r l c]\<rparr>"

definition emit_label :: "string \<Rightarrow> gen \<Rightarrow> gen" where
  "emit_label l g = emit ''label'' None None None (Some l) None g"

text \<open>
  \<open>repr\<close> of a number and of a string are Python built-ins; the generator takes them as
  the parameters \<open>rn\<close> and \<open>rs\<close>.
\<close>

type_synonym reprs = "(string \<Rightarrow> string) \<times> (string \<Rightarrow> string)"

subsection \<open>Expressions\<close>

text \<open>
  \<open>visit_expr\<close> returns the place of the value and the generator after the emitted
  instructions. Its final \<open>raise NotImplementedError\<close> needs a node outside the
  twelve expression classes, which the datatype excludes, so the model has no failure here.
  \<open>visit_args\<close> is the first loop of \<open>visit_call\<close>, \<open>boolop_loop\<close> and
  \<open>compare_loop\<close> are the loops of \<open>visit_boolop\<close> and \<open>visit_compare\<close>,
  and \<open>visit_opt\<close> is the \<open>visit_expr(x) if x is not None else "None"\<close> of the
  slice branches.
\<close>

fun emit_params :: "string list \<Rightarrow> gen \<Rightarrow> gen" where
  "emit_params [] g = g"
| "emit_params (p # ps) g = emit_params ps (emit ''param'' (Some p) None None None None g)"

fun visit_expr :: "reprs \<Rightarrow> Expr \<Rightarrow> gen \<Rightarrow> string \<times> gen"
  and visit_args :: "reprs \<Rightarrow> Expr list \<Rightarrow> gen \<Rightarrow> string list \<times> gen"
  and boolop_loop :: "reprs \<Rightarrow> string \<Rightarrow> string \<Rightarrow> Expr list \<Rightarrow> gen \<Rightarrow> string \<times> gen"
  and compare_loop ::
    "reprs \<Rightarrow> string option \<Rightarrow> string \<Rightarrow> string list \<Rightarrow> Expr list \<Rightarrow> gen
       \<Rightarrow> string option \<times> gen"
  and visit_opt :: "reprs \<Rightarrow> Expr option \<Rightarrow> gen \<Rightarrow> string \<times> gen"
  and visit_subscript :: "reprs \<Rightarrow> string \<Rightarrow> Slice \<Rightarrow> gen \<Rightarrow> string \<times> gen"
where
  "visit_expr R (Name n) g = (n, g)"
| "visit_expr R (Num v) g = (fst R v, g)"
| "visit_expr R (Str v) g = (snd R v, g)"
| "visit_expr R (Bool b) g = (if b then ''True'' else ''False'', g)"
| "visit_expr R NoneLiteral g = (''None'', g)"
| "visit_expr R (BinOp l o1 r) g =
     (case visit_expr R l g of (left_place, g1) \<Rightarrow>
      case visit_expr R r g1 of (right_place, g2) \<Rightarrow>
      case new_temp g2 of (res, g3) \<Rightarrow>
        (res, emit o1 (Some left_place) (Some right_place) (Some res) None None g3))"
| "visit_expr R (UnaryOp o1 e) g =
     (case visit_expr R e g of (operand_place, g1) \<Rightarrow>
      case new_temp g1 of (res, g2) \<Rightarrow>
        (res, emit o1 (Some operand_place) None (Some res) None None g2))"
| "visit_expr R (BoolOp o1 vs) g =
     (case vs of
        [] \<Rightarrow> (''False'', g)
      | v # vs1 \<Rightarrow>
          (case visit_expr R v g of (temp, g1) \<Rightarrow> boolop_loop R o1 temp vs1 g1))"
| "visit_expr R (Compare l ops cs) g =
     (case visit_expr R l g of (left_place, g1) \<Rightarrow>
        if ops = [] \<or> cs = [] then (left_place, g1)
        else (case compare_loop R None left_place ops cs g1 of
                (None, g2) \<Rightarrow> (left_place, g2)
              | (Some temp, g2) \<Rightarrow> (temp, g2)))"
| "visit_expr R (Call f as ks) g =
     (case visit_args R as g of (arg_places, g1) \<Rightarrow>
      case visit_expr R f (emit_params arg_places g1) of (func_place, g2) \<Rightarrow>
      case new_temp g2 of (res, g3) \<Rightarrow>
        (res, emit ''call'' (Some func_place) (Some (str_nat (length arg_places)))
                (Some res) None None g3))"
| "visit_expr R (Attribute v a) g =
     (case visit_expr R v g of (value_place, g1) \<Rightarrow>
      case new_temp g1 of (res, g2) \<Rightarrow>
        (res, emit ''getattr'' (Some value_place) (Some a) (Some res) None None g2))"
| "visit_expr R (Subscript v s) g =
     (case visit_expr R v g of (value_place, g1) \<Rightarrow> visit_subscript R value_place s g1)"
| "visit_args R [] g = ([], g)"
| "visit_args R (a # as) g =
     (case visit_expr R a g of (p, g1) \<Rightarrow>
      case visit_args R as g1 of (ps, g2) \<Rightarrow> (p # ps, g2))"
| "boolop_loop R o1 temp [] g = (temp, g)"
| "boolop_loop R o1 temp (e # es) g =
     (case visit_expr R e g of (right, g1) \<Rightarrow>
      case new_temp g1 of (t, g2) \<Rightarrow>
        boolop_loop R o1 t es (emit o1 (Some temp) (Some right) (Some t) None None g2))"
| "compare_loop R temp current_left (op_str # ops) (right_expr # cs) g =
     (case visit_expr R right_expr g of (right_place, g1) \<Rightarrow>
      case new_temp g1 of (t, g2) \<Rightarrow>
        compare_loop R (Some t) t ops cs
          (emit op_str (Some current_left) (Some right_place) (Some t) None None g2))"
| "compare_loop R temp current_left ops cs g = (temp, g)"
| "visit_opt R None g = (''None'', g)"
| "visit_opt R (Some e) g = visit_expr R e g"
| "visit_subscript R value_place (Slice start stop step) g =
     (case (start, stop, step) of
        (Some st, None, None) \<Rightarrow>
          (case visit_expr R st g of (index_place, g1) \<Rightarrow>
           case new_temp g1 of (res, g2) \<Rightarrow>
             (res, emit ''load_index'' (Some value_place) (Some index_place) (Some res)
                     None None g2))
      | _ \<Rightarrow>
          (case visit_opt R start g of (start_p, g1) \<Rightarrow>
           case visit_opt R stop g1 of (stop_p, g2) \<Rightarrow>
           case visit_opt R step g2 of (step_p, g3) \<Rightarrow>
           case new_temp g3 of (res, g4) \<Rightarrow>
             (res, emit ''slice'' (Some value_place)
                     (Some (''('' @ start_p @ '','' @ stop_p @ '','' @ step_p @ '')''))
                     (Some res) None None g4)))"

subsection \<open>Assignment targets\<close>

datatype gen_error = NotImplementedError string

text \<open>\<open>get_lvalue_place\<close>: the place a value is written to.\<close>

fun get_lvalue_place :: "reprs \<Rightarrow> Expr \<Rightarrow> gen \<Rightarrow> gen_error + string \<times> gen" where
  "get_lvalue_place R (Name n) g = Inr (n, g)"
| "get_lvalue_place R (Attribute v a) g =
     (case visit_expr R v g of (base, g1) \<Rightarrow> Inr (base @ ''.'' @ a, g1))"
| "get_lvalue_place R (Subscript v (Slice start stop step)) g =
     (case visit_expr R v g of (base, g1) \<Rightarrow>
        (case (start, stop, step) of
           (Some st, None, None) \<Rightarrow>
             (case visit_expr R st g1 of (index_place, g2) \<Rightarrow>
                Inr (base @ ''['' @ index_place @ '']'', g2))
         | _ \<Rightarrow>
             (case visit_opt R start g1 of (start_p, g2) \<Rightarrow>
              case visit_opt R stop g2 of (stop_p, g3) \<Rightarrow>
              case visit_opt R step g3 of (step_p, g4) \<Rightarrow>
                Inr (base @ ''['' @ start_p @ '':'' @ stop_p @ '':'' @ step_p @ '']'', g4))))"
| "get_lvalue_place R e g =
     Inl (NotImplementedError ''Lvalue no soportado para asignacion en 3AC'')"

subsection \<open>Statements\<close>

text \<open>
  Python's \<open>str.replace("=", "")\<close> deletes every occurrence of the character.
\<close>

definition op_base :: "string \<Rightarrow> string" where
  "op_base o1 = filter (\<lambda>c. c \<noteq> CHR ''='') o1"

fun emit_func_params :: "Arg list \<Rightarrow> gen \<Rightarrow> gen" where
  "emit_func_params [] g = g"
| "emit_func_params (a # as) g =
     emit_func_params as
       (emit ''param'' (Some (arg_name a)) None None None (Some ''func param'') g)"

definition visit_break :: "gen \<Rightarrow> gen" where
  "visit_break g =
     (if break_stack g = [] then emit ''goto'' None None (Some ''__INVALID_BREAK__'') None None g
      else emit ''goto'' None None (Some (last (break_stack g))) None None g)"

definition visit_continue :: "gen \<Rightarrow> gen" where
  "visit_continue g =
     (if continue_stack g = []
      then emit ''goto'' None None (Some ''__INVALID_CONTINUE__'') None None g
      else emit ''goto'' None None (Some (last (continue_stack g))) None None g)"

definition push_loop :: "string \<Rightarrow> string \<Rightarrow> gen \<Rightarrow> gen" where
  "push_loop label_start label_end g =
     g\<lparr>break_stack := break_stack g @ [label_end],
       continue_stack := continue_stack g @ [label_start]\<rparr>"

definition pop_loop :: "gen \<Rightarrow> gen" where
  "pop_loop g =
     g\<lparr>break_stack := butlast (break_stack g),
       continue_stack := butlast (continue_stack g)\<rparr>"

text \<open>
  \<open>visit_stmt\<close> fails only where \<open>get_lvalue_place\<close> does; its own final
  \<open>raise\<close> needs a node outside the eleven statement classes. \<open>visit_stmts\<close> is the
  \<open>for stmt in ...: self.visit_stmt(stmt)\<close> loop.
\<close>

fun visit_stmt :: "reprs \<Rightarrow> Stmt \<Rightarrow> gen \<Rightarrow> gen_error + gen"
  and visit_stmts :: "reprs \<Rightarrow> Stmt list \<Rightarrow> gen \<Rightarrow> gen_error + gen"
where
  "visit_stmt R (ExprStmt e) g = Inr (snd (visit_expr R e g))"
| "visit_stmt R (Assign targets v) g =
     (case visit_expr R v g of (value_place, g1) \<Rightarrow>
        (case targets of
           [] \<Rightarrow> Inr g1
         | target # _ \<Rightarrow>
             (case get_lvalue_place R target g1 of
                Inl e \<Rightarrow> Inl e
              | Inr (target_place, g2) \<Rightarrow>
                  Inr (emit ''='' (Some value_place) None (Some target_place) None None g2))))"
| "visit_stmt R (AugAssign target o1 v) g =
     (case get_lvalue_place R target g of
        Inl e \<Rightarrow> Inl e
      | Inr (target_place, g1) \<Rightarrow>
          (case visit_expr R v g1 of (right_place, g2) \<Rightarrow>
           case new_temp g2 of (t, g3) \<Rightarrow>
             Inr (emit ''='' (Some t) None (Some target_place) None None
                    (emit (op_base o1) (Some target_place) (Some right_place) (Some t)
                       None None g3))))"
| "visit_stmt R (Return v) g =
     (case v of
        Some e \<Rightarrow>
          (case visit_expr R e g of (value_place, g1) \<Rightarrow>
             Inr (emit ''return'' (Some value_place) None None None None g1))
      | None \<Rightarrow> Inr (emit ''return'' None None None None None g))"
| "visit_stmt R Pass g = Inr g"
| "visit_stmt R Break g = Inr (visit_break g)"
| "visit_stmt R Continue g = Inr (visit_continue g)"
| "visit_stmt R (If_stmt test body orelse) g =
     (case visit_expr R test g of (cond_place, g1) \<Rightarrow>
      case new_label ''L_else_'' g1 of (label_else, g2) \<Rightarrow>
      case new_label ''L_end_if_'' g2 of (label_end, g3) \<Rightarrow>
        (case visit_stmts R body
                (emit ''if_false_goto'' (Some cond_place) None (Some label_else) None None g3) of
           Inl e \<Rightarrow> Inl e
         | Inr g4 \<Rightarrow>
             (case visit_stmts R orelse
                     (emit_label label_else
                        (if orelse \<noteq> [] then emit ''goto'' None None (Some label_end) None None g4
                         else g4)) of
                Inl e \<Rightarrow> Inl e
              | Inr g5 \<Rightarrow> Inr (if orelse \<noteq> [] then emit_label label_end g5 else g5))))"
| "visit_stmt R (While test body orelse) g =
     (case new_label ''L_while_start_'' g of (label_start, g1) \<Rightarrow>
      case new_label ''L_while_end_'' g1 of (label_end, g2) \<Rightarrow>
      case visit_expr R test (emit_label label_start (push_loop label_start label_end g2)) of
        (cond_place, g3) \<Rightarrow>
        (case visit_stmts R body
                (emit ''if_false_goto'' (Some cond_place) None (Some label_end) None None g3) of
           Inl e \<Rightarrow> Inl e
         | Inr g4 \<Rightarrow>
             Inr (pop_loop
                    (emit_label label_end
                       (emit ''goto'' None None (Some label_start) None None g4)))))"
| "visit_stmt R (For target iter body orelse) g =
     (case visit_expr R iter g of (iter_place, g1) \<Rightarrow>
      case new_temp g1 of (idx, g2) \<Rightarrow>
      case new_temp g2 of (len, g3) \<Rightarrow>
      case new_label ''L_for_start_''
             (emit ''len'' (Some iter_place) None (Some len) None (Some ''len(iter)'')
                (emit ''='' (Some ''0'') None (Some idx) None (Some ''for index'') g3)) of
        (label_start, g4) \<Rightarrow>
      case new_label ''L_for_end_'' g4 of (label_end, g5) \<Rightarrow>
      case new_temp (emit_label label_start (push_loop label_start label_end g5)) of
        (cond, g6) \<Rightarrow>
      case new_temp
             (emit ''if_false_goto'' (Some cond) None (Some label_end) None None
                (emit ''<'' (Some idx) (Some len) (Some cond) None None g6)) of
        (value_temp, g7) \<Rightarrow>
        (case get_lvalue_place R target
                (emit ''load_index'' (Some iter_place) (Some idx) (Some value_temp)
                   None None g7) of
           Inl e \<Rightarrow> Inl e
         | Inr (target_place, g8) \<Rightarrow>
             (case visit_stmts R body
                     (emit ''='' (Some value_temp) None (Some target_place) None None g8) of
                Inl e \<Rightarrow> Inl e
              | Inr g9 \<Rightarrow>
                  (case new_temp g9 of (t, g10) \<Rightarrow>
                     Inr (pop_loop
                            (emit_label label_end
                               (emit ''goto'' None None (Some label_start) None None
                                  (emit ''='' (Some t) None (Some idx) None None
                                     (emit ''+'' (Some idx) (Some ''1'') (Some t)
                                        None None g10)))))))))"
| "visit_stmt R (FunctionDef func_name args body returns decorators) g =
     (case args of Arguments params \<Rightarrow>
        (case visit_stmts R body
                (emit_func_params params
                   (emit ''func_begin'' None None (Some func_name) None None g)) of
           Inl e \<Rightarrow> Inl e
         | Inr g1 \<Rightarrow>
             Inr (emit ''func_end'' None None (Some func_name) None None
                    (emit ''return'' None None None None (Some ''implicit return'') g1))))"
| "visit_stmts R [] g = Inr g"
| "visit_stmts R (s # ss) g =
     (case visit_stmt R s g of Inl e \<Rightarrow> Inl e | Inr g1 \<Rightarrow> visit_stmts R ss g1)"

definition visit_program :: "reprs \<Rightarrow> Program \<Rightarrow> gen \<Rightarrow> gen_error + gen" where
  "visit_program R p g = (case p of Program body \<Rightarrow> visit_stmts R body g)"

text \<open>\<open>generate_3ac\<close>: a fresh generator run on the program; its result is the code.\<close>

definition generate_3ac :: "reprs \<Rightarrow> Program \<Rightarrow> gen_error + TACInstr list" where
  "generate_3ac R p =
     (case visit_program R p gen_init of Inl e \<Rightarrow> Inl e | Inr g \<Rightarrow> Inr (code g))"


section \<open>Parser (parser.py)\<close>

text \<open>
  The fields of a \<open>Parser\<close> object. \<open>current\<close> is a field of the source too; it is
  always \<open>tokens[pos]\<close>.
\<close>

record parser =
  tokens :: "Token list"
  pos :: nat
  current :: Token
  symstack :: SymbolTableStack

text \<open>
  The parser can loop for ever on a token list that does not end in ENDMARKER
  (\<open>_advance\<close> stays on the last token), so every parsing function takes fuel: a bound
  on the depth of the recursion and on the iterations of each loop. A call returns a value
  and the parser after it, or fails, or runs out of fuel. The methods that parse an
  expression raise nothing but \<open>ParserError\<close>, so their fault is the message and the
  token of a \<open>ParserError\<close>; the methods that parse a statement also reach the symbol
  table and fail with an \<open>error\<close>.
\<close>

datatype ('e, 'a) outcome = Ok 'a parser | Fail 'e | OutOfFuel

type_synonym 'a eres = "(parser_msg \<times> Token, 'a) outcome"
type_synonym 'a sres = "(error, 'a) outcome"

fun bind :: "('e, 'a) outcome \<Rightarrow> ('a \<Rightarrow> parser \<Rightarrow> ('e, 'b) outcome) \<Rightarrow> ('e, 'b) outcome" where
  "bind (Ok x p) f = f x p"
| "bind (Fail e) f = Fail e"
| "bind OutOfFuel f = OutOfFuel"

fun lift :: "'a eres \<Rightarrow> 'a sres" where
  "lift (Ok x p) = Ok x p"
| "lift (Fail (m, t)) = Fail (ParserError m t)"
| "lift OutOfFuel = OutOfFuel"

fun lift_sym :: "parser \<Rightarrow> error + 'a \<times> SymbolTableStack \<Rightarrow> 'a sres" where
  "lift_sym p (Inl e) = Fail e"
| "lift_sym p (Inr (x, st)) = Ok x (p\<lparr>symstack := st\<rparr>)"

text \<open>
  The text of a token payload: the \<open>value\<close> of a NAME or STRING token is a string and
  that of a NUMBER token is a number, kept as its text.
\<close>

fun value_text :: "tok_value \<Rightarrow> string" where
  "value_text (VStr s) = s"
| "value_text (VNum s) = s"
| "value_text VNone = []"

definition parser_init :: "Token list \<Rightarrow> error + parser" where
  "parser_init toks =
     (case toks of
        [] \<Rightarrow> Inl ValueError
      | t # _ \<Rightarrow>
          Inr \<lparr>tokens = toks, pos = 0, current = t,
               symstack = snd (push_scope ''global'' [])\<rparr>)"

definition augassign_ops :: "(string \<times> string) list" where
  "augassign_ops =
     [(TT_PLUSEQUAL, ''+=''), (TT_MINEQUAL, ''-=''), (TT_STAREQUAL, ''*=''),
      (TT_SLASHEQUAL, ''/=''), (TT_DOUBLE_SLASHEQUAL, ''//=''), (TT_PERCENTEQUAL, ''%=''),
      (TT_AMPEREQUAL, ''&=''), (TT_PIPEEQUAL, ''|=''), (TT_CARETEQUAL, ''^=''),
      (TT_LSHIFTEQUAL, ''<<=''), (TT_RSHIFTEQUAL, ''>>=''), (TT_DOUBLE_STAREQUAL, ''**='')]"

subsection \<open>Helpers\<close>

definition p_advance :: "parser \<Rightarrow> parser" where
  "p_advance p =
     (if pos p < length (tokens p) - 1
      then p\<lparr>pos := pos p + 1, current := tokens p ! (pos p + 1)\<rparr>
      else p)"

definition eat :: "string \<Rightarrow> parser \<Rightarrow> Token eres" where
  "eat token_type p =
     (if tok_type (current p) = token_type then Ok (current p) (p_advance p)
      else Fail (ExpectedToken token_type (tok_type (current p)), current p))"

definition peek_token :: "parser \<Rightarrow> Token" where
  "peek_token p =
     (if pos p + 1 \<ge> length (tokens p) then last (tokens p) else tokens p ! (pos p + 1))"

definition is_keyword :: "string \<Rightarrow> parser \<Rightarrow> bool" where
  "is_keyword word p \<longleftrightarrow> tok_type (current p) = TT_NAME \<and> tok_value (current p) = VStr word"

definition expect_keyword :: "string \<Rightarrow> parser \<Rightarrow> Token eres" where
  "expect_keyword word p =
     (if is_keyword word p then Ok (current p) (p_advance p)
      else Fail (ExpectedKeyword word, current p))"

definition p_error :: "parser_msg \<Rightarrow> parser \<Rightarrow> ('a) eres" where
  "p_error m p = Fail (m, current p)"

subsection \<open>Expressions\<close>

text \<open>
  Each method takes the parsers it calls as arguments (\<open>pe\<close> for \<open>parse_expression\<close>,
  \<open>pf\<close> for \<open>parse_factor\<close>, and so on); \<open>parse_expression\<close> closes the recursion.
\<close>

definition parse_atom :: "(parser \<Rightarrow> Expr eres) \<Rightarrow> parser \<Rightarrow> Expr eres" where
  "parse_atom pe p =
     (let tok = current p in
      if tok_type tok = TT_NAME then
        (if tok_value tok = VStr ''True'' then Ok (Bool True) (p_advance p)
         else if tok_value tok = VStr ''False'' then Ok (Bool False) (p_advance p)
         else if tok_value tok = VStr ''None'' then Ok NoneLiteral (p_advance p)
         else Ok (Name (value_text (tok_value tok))) (p_advance p))
      else if tok_type tok = TT_NUMBER then Ok (Num (value_text (tok_value tok))) (p_advance p)
      else if tok_type tok = TT_STRING then Ok (Str (value_text (tok_value tok))) (p_advance p)
      else if tok_type tok = TT_LPAREN then
        bind (pe (p_advance p)) (\<lambda>expr p1.
        bind (eat TT_RPAREN p1) (\<lambda>_ p2. Ok expr p2))
      else p_error ExpectedAtom p)"

text \<open>The \<open>while True\<close> loop of \<open>parse_arglist\<close>.\<close>

primrec arglist_loop ::
  "nat \<Rightarrow> (parser \<Rightarrow> Expr eres) \<Rightarrow> Expr list \<Rightarrow> KeywordArg list \<Rightarrow> parser
     \<Rightarrow> (Expr list \<times> KeywordArg list) eres" where
  "arglist_loop 0 pe args keywords p = OutOfFuel"
| "arglist_loop (Suc n) pe args keywords p =
     bind
       (if tok_type (current p) = TT_NAME \<and> tok_type (peek_token p) = TT_EQUAL then
          bind (eat TT_NAME p) (\<lambda>name_tok p1.
          bind (eat TT_EQUAL p1) (\<lambda>_ p2.
          bind (pe p2) (\<lambda>v p3.
            Ok (args, keywords @ [KeywordArg (value_text (tok_value name_tok)) v]) p3)))
        else bind (pe p) (\<lambda>expr p1. Ok (args @ [expr], keywords) p1))
       (\<lambda>(args1, keywords1) p1.
          if tok_type (current p1) = TT_COMMA then
            let next_tok = peek_token p1 in
            bind (eat TT_COMMA p1) (\<lambda>_ p2.
              if tok_type next_tok = TT_RPAREN then Ok (args1, keywords1) p2
              else arglist_loop n pe args1 keywords1 p2)
          else Ok (args1, keywords1) p1)"

definition parse_arglist ::
  "nat \<Rightarrow> (parser \<Rightarrow> Expr eres) \<Rightarrow> parser \<Rightarrow> (Expr list \<times> KeywordArg list) eres" where
  "parse_arglist n pe p =
     (if tok_type (current p) = TT_RPAREN then Ok ([], []) p else arglist_loop n pe [] [] p)"

text \<open>The \<open>while True\<close> loop of \<open>parse_primary\<close>.\<close>

primrec primary_loop :: "nat \<Rightarrow> (parser \<Rightarrow> Expr eres) \<Rightarrow> Expr \<Rightarrow> parser \<Rightarrow> Expr eres" where
  "primary_loop 0 pe node p = OutOfFuel"
| "primary_loop (Suc n) pe node p =
     (if tok_type (current p) = TT_DOT then
        bind (eat TT_NAME (p_advance p)) (\<lambda>name_tok p1.
          primary_loop n pe (Attribute node (value_text (tok_value name_tok))) p1)
      else if tok_type (current p) = TT_LPAREN then
        bind (parse_arglist n pe (p_advance p)) (\<lambda>(args, keywords) p1.
        bind (eat TT_RPAREN p1) (\<lambda>_ p2.
          primary_loop n pe (Call node args keywords) p2))
      else if tok_type (current p) = TT_LBRACKET then
        bind (pe (p_advance p)) (\<lambda>index_expr p1.
        bind (eat TT_RBRACKET p1) (\<lambda>_ p2.
          primary_loop n pe (Subscript node (Slice (Some index_expr) None None)) p2))
      else Ok node p)"

definition parse_primary :: "nat \<Rightarrow> (parser \<Rightarrow> Expr eres) \<Rightarrow> parser \<Rightarrow> Expr eres" where
  "parse_primary n pe p = bind (parse_atom pe p) (\<lambda>node p1. primary_loop n pe node p1)"

definition parse_power ::
  "(parser \<Rightarrow> Expr eres) \<Rightarrow> nat \<Rightarrow> (parser \<Rightarrow> Expr eres) \<Rightarrow> parser \<Rightarrow> Expr eres" where
  "parse_power pf n pe p =
     bind (parse_primary n pe p) (\<lambda>node p1.
       if tok_type (current p1) = TT_DOUBLE_STAR then
         bind (pf (p_advance p1)) (\<lambda>right p2. Ok (BinOp node ''**'' right) p2)
       else Ok node p1)"

primrec parse_factor :: "nat \<Rightarrow> (parser \<Rightarrow> Expr eres) \<Rightarrow> parser \<Rightarrow> Expr eres" where
  "parse_factor 0 pe p = OutOfFuel"
| "parse_factor (Suc n) pe p =
     (if tok_type (current p) = TT_PLUS \<or> tok_type (current p) = TT_MINUS
         \<or> tok_type (current p) = TT_TILDE then
        let op_str = (if tok_type (current p) = TT_PLUS then ''+''
                      else if tok_type (current p) = TT_MINUS then ''-'' else ''~'') in
        bind (parse_factor n pe (p_advance p)) (\<lambda>operand p1. Ok (UnaryOp op_str operand) p1)
      else parse_power (parse_factor n pe) n pe p)"

primrec term_loop :: "nat \<Rightarrow> (parser \<Rightarrow> Expr eres) \<Rightarrow> Expr \<Rightarrow> parser \<Rightarrow> Expr eres" where
  "term_loop 0 pf node p = OutOfFuel"
| "term_loop (Suc n) pf node p =
     (if tok_type (current p) = TT_STAR \<or> tok_type (current p) = TT_SLASH
         \<or> tok_type (current p) = TT_DOUBLE_SLASH \<or> tok_type (current p) = TT_PERCENT then
        let op_str = (if tok_type (current p) = TT_STAR then ''*''
                      else if tok_type (current p) = TT_SLASH then ''/''
                      else if tok_type (current p) = TT_DOUBLE_SLASH then ''//'' else ''%'') in
        bind (pf (p_advance p)) (\<lambda>right p1. term_loop n pf (BinOp node op_str right) p1)
      else Ok node p)"

definition parse_term :: "nat \<Rightarrow> (parser \<Rightarrow> Expr eres) \<Rightarrow> parser \<Rightarrow> Expr eres" where
  "parse_term n pe p =
     bind (parse_factor n pe p) (\<lambda>node p1. term_loop n (parse_factor n pe) node p1)"

primrec arith_loop :: "nat \<Rightarrow> (parser \<Rightarrow> Expr eres) \<Rightarrow> Expr \<Rightarrow> parser \<Rightarrow> Expr eres" where
  "arith_loop 0 pt node p = OutOfFuel"
| "arith_loop (Suc n) pt node p =
     (if tok_type (current p) = TT_PLUS \<or> tok_type (current p) = TT_MINUS then
        let op_str = (if tok_type (current p) = TT_PLUS then ''+'' else ''-'') in
        bind (pt (p_advance p)) (\<lambda>right p1. arith_loop n pt (BinOp node op_str right) p1)
      else Ok node p)"

definition parse_arith_expr :: "nat \<Rightarrow> (parser \<Rightarrow> Expr eres) \<Rightarrow> parser \<Rightarrow> Expr eres" where
  "parse_arith_expr n pe p =
     bind (parse_term n pe p) (\<lambda>node p1. arith_loop n (parse_term n pe) node p1)"

text \<open>
  \<open>_map_compare_op\<close>: its keys are the six token types the loop of
  \<open>parse_comparison\<close> tests for, so the loop goes on exactly when the lookup succeeds.
\<close>

definition map_compare_op :: "(string \<times> string) list" where
  "map_compare_op =
     [(TT_EQEQUAL, ''==''), (TT_NOTEQUAL, ''!=''), (TT_LESS, ''<''), (TT_GREATER, ''>''),
      (TT_LESSEQUAL, ''<=''), (TT_GREATEREQUAL, ''>='')]"

primrec comparison_loop ::
  "nat \<Rightarrow> (parser \<Rightarrow> Expr eres) \<Rightarrow> string list \<Rightarrow> Expr list \<Rightarrow> parser
     \<Rightarrow> (string list \<times> Expr list) eres" where
  "comparison_loop 0 pa ops comparators p = OutOfFuel"
| "comparison_loop (Suc n) pa ops comparators p =
     (case map_of map_compare_op (tok_type (current p)) of
        Some op_str \<Rightarrow>
          bind (pa (p_advance p)) (\<lambda>right p1.
            comparison_loop n pa (ops @ [op_str]) (comparators @ [right]) p1)
      | None \<Rightarrow> Ok (ops, comparators) p)"

definition parse_comparison :: "nat \<Rightarrow> (parser \<Rightarrow> Expr eres) \<Rightarrow> parser \<Rightarrow> Expr eres" where
  "parse_comparison n pe p =
     bind (parse_arith_expr n pe p) (\<lambda>node p1.
     bind (comparison_loop n (parse_arith_expr n pe) [] [] p1) (\<lambda>(ops, comparators) p2.
       if ops \<noteq> [] then Ok (Compare node ops comparators) p2 else Ok node p2))"

primrec parse_not :: "nat \<Rightarrow> (parser \<Rightarrow> Expr eres) \<Rightarrow> parser \<Rightarrow> Expr eres" where
  "parse_not 0 pc p = OutOfFuel"
| "parse_not (Suc n) pc p =
     (if is_keyword ''not'' p then
        bind (parse_not n pc (p_advance p)) (\<lambda>operand p1. Ok (UnaryOp ''not'' operand) p1)
      else pc p)"

text \<open>
  \<open>node.values.append(right)\<close> when \<open>node\<close> is a \<open>BoolOp\<close> with the operator of the
  loop, a new two-operand \<open>BoolOp\<close> otherwise.
\<close>

fun extend_boolop :: "string \<Rightarrow> Expr \<Rightarrow> Expr \<Rightarrow> Expr" where
  "extend_boolop o1 (BoolOp o2 vs) right =
     (if o2 = o1 then BoolOp o2 (vs @ [right]) else BoolOp o1 [BoolOp o2 vs, right])"
| "extend_boolop o1 node right = BoolOp o1 [node, right]"

primrec boolop_chain ::
  "nat \<Rightarrow> string \<Rightarrow> (parser \<Rightarrow> Expr eres) \<Rightarrow> Expr \<Rightarrow> parser \<Rightarrow> Expr eres" where
  "boolop_chain 0 word sub node p = OutOfFuel"
| "boolop_chain (Suc n) word sub node p =
     (if is_keyword word p then
        bind (sub (p_advance p)) (\<lambda>right p1.
          boolop_chain n word sub (extend_boolop word node right) p1)
      else Ok node p)"

definition parse_and :: "nat \<Rightarrow> (parser \<Rightarrow> Expr eres) \<Rightarrow> parser \<Rightarrow> Expr eres" where
  "parse_and n pe p =
     bind (parse_not n (parse_comparison n pe) p) (\<lambda>node p1.
       boolop_chain n ''and'' (parse_not n (parse_comparison n pe)) node p1)"

definition parse_or :: "nat \<Rightarrow> (parser \<Rightarrow> Expr eres) \<Rightarrow> parser \<Rightarrow> Expr eres" where
  "parse_or n pe p =
     bind (parse_and n pe p) (\<lambda>node p1. boolop_chain n ''or'' (parse_and n pe) node p1)"

primrec parse_expression :: "nat \<Rightarrow> parser \<Rightarrow> Expr eres" where
  "parse_expression 0 p = OutOfFuel"
| "parse_expression (Suc n) p = parse_or n (parse_expression n) p"

subsection \<open>Simple statements\<close>

definition parse_return_stmt :: "nat \<Rightarrow> parser \<Rightarrow> Stmt sres" where
  "parse_return_stmt n p =
     bind (lift (expect_keyword ''return'' p)) (\<lambda>_ p1.
       if tok_type (current p1) = TT_NEWLINE \<or> tok_type (current p1) = TT_DEDENT
          \<or> tok_type (current p1) = TT_ENDMARKER
       then Ok (Return None) p1
       else bind (lift (parse_expression n p1)) (\<lambda>v p2. Ok (Return (Some v)) p2))"

definition parse_pass_stmt :: "parser \<Rightarrow> Stmt sres" where
  "parse_pass_stmt p = bind (lift (expect_keyword ''pass'' p)) (\<lambda>_ p1. Ok Pass p1)"

definition parse_break_stmt :: "parser \<Rightarrow> Stmt sres" where
  "parse_break_stmt p = bind (lift (expect_keyword ''break'' p)) (\<lambda>_ p1. Ok Break p1)"

definition parse_continue_stmt :: "parser \<Rightarrow> Stmt sres" where
  "parse_continue_stmt p = bind (lift (expect_keyword ''continue'' p)) (\<lambda>_ p1. Ok Continue p1)"

text \<open>\<open>_ensure_assignable\<close>: a name, an attribute or a subscript.\<close>

fun ensure_assignable :: "Expr \<Rightarrow> parser \<Rightarrow> Expr sres" where
  "ensure_assignable (Name n) p = Ok (Name n) p"
| "ensure_assignable (Attribute v a) p = Ok (Attribute v a) p"
| "ensure_assignable (Subscript v s) p = Ok (Subscript v s) p"
| "ensure_assignable e p = Fail (ParserError NotAssignable (current p))"

text \<open>
  The guarded registration of \<open>parse_expr_or_assignment\<close> and of
  \<open>parse_function_def\<close>: \<open>define\<close> on the current scope, only when
  \<open>lookup_local\<close> finds nothing there.
\<close>

definition define_if_absent :: "string \<Rightarrow> string \<Rightarrow> string \<Rightarrow> parser \<Rightarrow> unit sres" where
  "define_if_absent n k ty p =
     (case current_scope (symstack p) of
        Inl e \<Rightarrow> Fail e
      | Inr scope \<Rightarrow>
          if lookup_local scope n = None then
            (case table_define scope n k ty of
               Inl e \<Rightarrow> Fail e
             | Inr (entry, scope') \<Rightarrow>
                 Ok () (p\<lparr>symstack := butlast (symstack p) @ [scope']\<rparr>))
          else Ok () p)"

fun register_target :: "Expr \<Rightarrow> parser \<Rightarrow> unit sres" where
  "register_target (Name n) p = define_if_absent n ''variable'' ''unknown'' p"
| "register_target e p = Ok () p"

definition parse_expr_or_assignment :: "nat \<Rightarrow> parser \<Rightarrow> Stmt sres" where
  "parse_expr_or_assignment n p =
     bind (lift (parse_expression n p)) (\<lambda>left_expr p1.
       let tok = current p1 in
       if tok_type tok = TT_EQUAL then
         bind (ensure_assignable left_expr p1) (\<lambda>target p2.
         bind (lift (parse_expression n (p_advance p2))) (\<lambda>v p3.
         bind (register_target target p3) (\<lambda>_ p4.
           Ok (Assign [target] v) p4)))
       else
         (case map_of augassign_ops (tok_type tok) of
            Some op_str \<Rightarrow>
              bind (ensure_assignable left_expr p1) (\<lambda>target p2.
              bind (lift (parse_expression n (p_advance p2))) (\<lambda>v p3.
                Ok (AugAssign target op_str v) p3))
          | None \<Rightarrow> Ok (ExprStmt left_expr) p1))"

definition parse_simple_stmt :: "nat \<Rightarrow> parser \<Rightarrow> Stmt sres" where
  "parse_simple_stmt n p =
     bind
       (if is_keyword ''return'' p then parse_return_stmt n p
        else if is_keyword ''pass'' p then parse_pass_stmt p
        else if is_keyword ''break'' p then parse_break_stmt p
        else if is_keyword ''continue'' p then parse_continue_stmt p
        else parse_expr_or_assignment n p)
       (\<lambda>node p1.
          if tok_type (current p1) = TT_NEWLINE then Ok node (p_advance p1)
          else if tok_type (current p1) = TT_DEDENT \<or> tok_type (current p1) = TT_ENDMARKER
          then Ok node p1
          else Fail (ParserError ExpectedNewline (current p1)))"

subsection \<open>Blocks and compound statements\<close>

text \<open>
  \<open>ps\<close> is \<open>parse_statement\<close> and \<open>pb\<close> is \<open>parse_block\<close>. \<open>block_loop\<close> is the
  loop of \<open>parse_block\<close>.
\<close>

primrec block_loop :: "nat \<Rightarrow> (parser \<Rightarrow> Stmt sres) \<Rightarrow> Stmt list \<Rightarrow> parser \<Rightarrow> Stmt list sres"
  where
  "block_loop 0 ps stmts p = OutOfFuel"
| "block_loop (Suc n) ps stmts p =
     (if tok_type (current p) \<noteq> TT_DEDENT \<and> tok_type (current p) \<noteq> TT_ENDMARKER then
        if tok_type (current p) = TT_NEWLINE then block_loop n ps stmts (p_advance p)
        else bind (ps p) (\<lambda>s p1. block_loop n ps (stmts @ [s]) p1)
      else Ok stmts p)"

definition parse_block :: "nat \<Rightarrow> (parser \<Rightarrow> Stmt sres) \<Rightarrow> parser \<Rightarrow> Stmt list sres" where
  "parse_block n ps p =
     (if tok_type (current p) = TT_NEWLINE then
        bind (lift (eat TT_NEWLINE p)) (\<lambda>_ p1.
        bind (lift (eat TT_INDENT p1)) (\<lambda>_ p2.
        bind (block_loop n ps [] p2) (\<lambda>stmts p3.
        bind (lift (eat TT_DEDENT p3)) (\<lambda>_ p4. Ok stmts p4))))
      else bind (parse_simple_stmt n p) (\<lambda>stmt p1. Ok [stmt] p1))"

text \<open>
  The \<open>elif\<close> loop and the \<open>else\<close> part of \<open>parse_if_stmt\<close>. The source appends each
  \<open>elif\<close> node to the \<open>orelse\<close> list of the node before it and the \<open>else\<close> body to the
  innermost list; the result is the \<open>orelse\<close> list of the first node, built here from the
  inside.
\<close>

primrec orelse_chain ::
  "nat \<Rightarrow> nat \<Rightarrow> (parser \<Rightarrow> Stmt list sres) \<Rightarrow> parser \<Rightarrow> Stmt list sres" where
  "orelse_chain 0 m pb p = OutOfFuel"
| "orelse_chain (Suc n) m pb p =
     (if is_keyword ''elif'' p then
        bind (lift (parse_expression m (p_advance p))) (\<lambda>elif_test p1.
        bind (lift (eat TT_COLON p1)) (\<lambda>_ p2.
        bind (pb p2) (\<lambda>elif_body p3.
        bind (orelse_chain n m pb p3) (\<lambda>inner p4.
          Ok [If_stmt elif_test elif_body inner] p4))))
      else if is_keyword ''else'' p then
        bind (lift (eat TT_COLON (p_advance p))) (\<lambda>_ p1. pb p1)
      else Ok [] p)"

definition parse_if_stmt :: "nat \<Rightarrow> (parser \<Rightarrow> Stmt list sres) \<Rightarrow> parser \<Rightarrow> Stmt sres" where
  "parse_if_stmt n pb p =
     bind (lift (expect_keyword ''if'' p)) (\<lambda>_ p1.
     bind (lift (parse_expression n p1)) (\<lambda>test p2.
     bind (lift (eat TT_COLON p2)) (\<lambda>_ p3.
     bind (pb p3) (\<lambda>body p4.
     bind (orelse_chain n n pb p4) (\<lambda>orelse p5.
       Ok (If_stmt test body orelse) p5)))))"

definition parse_else :: "(parser \<Rightarrow> Stmt list sres) \<Rightarrow> parser \<Rightarrow> Stmt list sres" where
  "parse_else pb p =
     (if is_keyword ''else'' p then
        bind (lift (eat TT_COLON (p_advance p))) (\<lambda>_ p1. pb p1)
      else Ok [] p)"

definition parse_while_stmt :: "nat \<Rightarrow> (parser \<Rightarrow> Stmt list sres) \<Rightarrow> parser \<Rightarrow> Stmt sres" where
  "parse_while_stmt n pb p =
     bind (lift (expect_keyword ''while'' p)) (\<lambda>_ p1.
     bind (lift (parse_expression n p1)) (\<lambda>test p2.
     bind (lift (eat TT_COLON p2)) (\<lambda>_ p3.
     bind (pb p3) (\<lambda>body p4.
     bind (parse_else pb p4) (\<lambda>orelse p5.
       Ok (While test body orelse) p5)))))"

definition parse_for_stmt :: "nat \<Rightarrow> (parser \<Rightarrow> Stmt list sres) \<Rightarrow> parser \<Rightarrow> Stmt sres" where
  "parse_for_stmt n pb p =
     bind (lift (expect_keyword ''for'' p)) (\<lambda>_ p1.
     bind (lift (parse_expression n p1)) (\<lambda>target_expr p2.
     bind (lift (expect_keyword ''in'' p2)) (\<lambda>_ p3.
     bind (lift (parse_expression n p3)) (\<lambda>iter_expr p4.
     bind (lift (eat TT_COLON p4)) (\<lambda>_ p5.
     bind (pb p5) (\<lambda>body p6.
     bind (parse_else pb p6) (\<lambda>orelse p7.
       Ok (For target_expr iter_expr body orelse) p7)))))))"

subsection \<open>Function definitions\<close>

text \<open>The \<open>while True\<close> loop of \<open>parse_parameters\<close>.\<close>

primrec parameters_loop :: "nat \<Rightarrow> Arg list \<Rightarrow> parser \<Rightarrow> Arg list eres" where
  "parameters_loop 0 params p = OutOfFuel"
| "parameters_loop (Suc n) params p =
     (if tok_type (current p) \<noteq> TT_NAME then p_error ExpectedParamName p
      else
        bind (eat TT_NAME p) (\<lambda>name_tok p1.
          let params1 = params @ [Arg (value_text (tok_value name_tok)) None None] in
          if tok_type (current p1) = TT_COMMA then
            let next_tok = peek_token p1 in
            bind (eat TT_COMMA p1) (\<lambda>_ p2.
              if tok_type next_tok = TT_RPAREN then Ok params1 p2
              else parameters_loop n params1 p2)
          else Ok params1 p1))"

definition parse_parameters :: "nat \<Rightarrow> parser \<Rightarrow> Arg list eres" where
  "parse_parameters n p =
     (if tok_type (current p) = TT_RPAREN then Ok [] p else parameters_loop n [] p)"

text \<open>
  \<open>for arg in params: self.symstack.define(arg.name, kind="param", typ="unknown")\<close>:
  unguarded, on the scope just pushed.
\<close>

fun define_params :: "Arg list \<Rightarrow> SymbolTableStack \<Rightarrow> error + SymbolTableStack" where
  "define_params [] st = Inr st"
| "define_params (a # as) st =
     (case stack_define st (arg_name a) ''param'' ''unknown'' of
        Inl e \<Rightarrow> Inl e
      | Inr (entry, st1) \<Rightarrow> define_params as st1)"

definition parse_function_def ::
  "nat \<Rightarrow> (parser \<Rightarrow> Stmt list sres) \<Rightarrow> parser \<Rightarrow> Stmt sres" where
  "parse_function_def n pb p =
     bind (lift (expect_keyword ''def'' p)) (\<lambda>_ p1.
     bind (lift (eat TT_NAME p1)) (\<lambda>name_tok p2.
       let func_name = value_text (tok_value name_tok) in
       bind (define_if_absent func_name ''function'' ''function'' p2) (\<lambda>_ p3.
       bind (lift (eat TT_LPAREN p3)) (\<lambda>_ p4.
       bind (lift (parse_parameters n p4)) (\<lambda>params p5.
       bind (lift (eat TT_RPAREN p5)) (\<lambda>_ p6.
       bind (lift (eat TT_COLON p6)) (\<lambda>_ p7.
         (case define_params params (snd (push_scope (''func '' @ func_name) (symstack p7))) of
            Inl e \<Rightarrow> Fail e
          | Inr st \<Rightarrow>
              bind (pb (p7\<lparr>symstack := st\<rparr>)) (\<lambda>body p8.
                (case pop_scope (symstack p8) of
                   Inl e \<Rightarrow> Fail e
                 | Inr (popped, st1) \<Rightarrow>
                     Ok (FunctionDef func_name (Arguments params) body None [])
                        (p8\<lparr>symstack := st1\<rparr>)))))))))))"

subsection \<open>Statements and the program\<close>

primrec parse_statement :: "nat \<Rightarrow> parser \<Rightarrow> Stmt sres" where
  "parse_statement 0 p = OutOfFuel"
| "parse_statement (Suc n) p =
     (if is_keyword ''if'' p then parse_if_stmt n (parse_block n (parse_statement n)) p
      else if is_keyword ''while'' p then
        parse_while_stmt n (parse_block n (parse_statement n)) p
      else if is_keyword ''for'' p then parse_for_stmt n (parse_block n (parse_statement n)) p
      else if is_keyword ''def'' p then
        parse_function_def n (parse_block n (parse_statement n)) p
      else parse_simple_stmt n p)"

text \<open>The loop of \<open>parse\<close>.\<close>

primrec parse_loop :: "nat \<Rightarrow> nat \<Rightarrow> Stmt list \<Rightarrow> parser \<Rightarrow> Stmt list sres" where
  "parse_loop 0 m body p = OutOfFuel"
| "parse_loop (Suc n) m body p =
     (if tok_type (current p) \<noteq> TT_ENDMARKER then
        if tok_type (current p) = TT_NEWLINE then parse_loop n m body (p_advance p)
        else if tok_type (current p) = TT_INDENT \<or> tok_type (current p) = TT_DEDENT
        then Fail (ParserError UnexpectedIndent (current p))
        else bind (parse_statement m p) (\<lambda>stmt p1. parse_loop n m (body @ [stmt]) p1)
      else Ok body p)"

definition parse :: "nat \<Rightarrow> parser \<Rightarrow> Program sres" where
  "parse n p = bind (parse_loop n n [] p) (\<lambda>body p1. Ok (Program body) p1)"

text \<open>\<open>parse_tokens\<close>: a new parser on the tokens, then \<open>parse\<close>.\<close>

definition parse_tokens :: "nat \<Rightarrow> Token list \<Rightarrow> Program sres" where
  "parse_tokens n toks =
     (case parser_init toks of Inl e \<Rightarrow> Fail e | Inr p \<Rightarrow> parse n p)"

text \<open>
  The first two steps of \<open>run_pipeline\<close> in main.py: the lexer on the source text, then
  the parser on its tokens.
\<close>

definition front_end :: "nat \<Rightarrow> string \<Rightarrow> Program sres" where
  "front_end n src =
     (case tokenize src of Inl e \<Rightarrow> Fail e | Inr toks \<Rightarrow> parse_tokens n toks)"

subsection \<open>Predicates used by the properties\<close>

text \<open>
  \<open>func_scope_fault r\<close>: if \<open>r\<close> is a redeclaration fault, the scope it names is one
  that \<open>parse_function_def\<close> pushed, \<open>func\<close> followed by the function name.
  \<open>is_terminal e\<close>: \<open>e\<close> is a name or a literal.
\<close>

definition func_scope_fault :: "(error, 'a) outcome \<Rightarrow> bool" where
  "func_scope_fault r \<longleftrightarrow>
     (\<forall>s x. r = Fail (RuntimeError (Redeclared s x)) \<longrightarrow> (\<exists>f. s = ''func '' @ f))"

text \<open>
  The lines of \<open>parse_function_def\<close> up to the colon: the keyword, the name and its
  guarded registration, the parenthesised parameters. It returns the function name and the
  parameters; \<open>parse_function_def\<close> goes on from there with the new scope.
\<close>

definition def_header :: "nat \<Rightarrow> parser \<Rightarrow> (string \<times> Arg list) sres" where
  "def_header n p =
     bind (lift (expect_keyword ''def'' p)) (\<lambda>_ p1.
     bind (lift (eat TT_NAME p1)) (\<lambda>name_tok p2.
       let func_name = value_text (tok_value name_tok) in
       bind (define_if_absent func_name ''function'' ''function'' p2) (\<lambda>_ p3.
       bind (lift (eat TT_LPAREN p3)) (\<lambda>_ p4.
       bind (lift (parse_parameters n p4)) (\<lambda>params p5.
       bind (lift (eat TT_RPAREN p5)) (\<lambda>_ p6.
       bind (lift (eat TT_COLON p6)) (\<lambda>_ p7.
         Ok (func_name, params) p7)))))))"

text \<open>
  \<open>on_tokens toks q\<close>: \<open>q\<close> is a parser somewhere on the token list \<open>toks\<close>, with any
  symbol table. \<open>stays_on toks r\<close>: a parser returned by \<open>r\<close> is still on \<open>toks\<close>.

  \<open>duplicate_param_fault toks r\<close>: if \<open>r\<close> is the redeclaration fault of a name \<open>x\<close> in
  a scope \<open>s\<close>, then at some position of \<open>toks\<close> the header of a function definition
  parses, \<open>x\<close> is the name of at least two of its parameters, \<open>s\<close> is the scope of
  that function, and the fault is the one that the registration of these parameters in
  the scope just pushed returns.
\<close>

definition on_tokens :: "Token list \<Rightarrow> parser \<Rightarrow> bool" where
  "on_tokens toks q \<longleftrightarrow> tokens q = toks \<and> pos q < length toks \<and> current q = toks ! pos q"

definition stays_on :: "Token list \<Rightarrow> ('e, 'a) outcome \<Rightarrow> bool" where
  "stays_on toks r \<longleftrightarrow> (\<forall>v q. r = Ok v q \<longrightarrow> on_tokens toks q)"

definition duplicate_param_fault :: "Token list \<Rightarrow> (error, 'a) outcome \<Rightarrow> bool" where
  "duplicate_param_fault toks r \<longleftrightarrow>
     (\<forall>s x. r = Fail (RuntimeError (Redeclared s x)) \<longrightarrow>
        (\<exists>m p f params p7.
           on_tokens toks p \<and> def_header m p = Ok (f, params) p7 \<and>
           s = ''func '' @ f \<and> 1 < count_list (map arg_name params) x \<and>
           define_params params (snd (push_scope (''func '' @ f) (symstack p7))) =
             Inl (RuntimeError (Redeclared s x))))"

fun is_terminal :: "Expr \<Rightarrow> bool" where
  "is_terminal (Name n) = True"
| "is_terminal (Num v) = True"
| "is_terminal (Str v) = True"
| "is_terminal (Bool b) = True"
| "is_terminal NoneLiteral = True"
| "is_terminal e = False"


section \<open>Properties of the lexer\<close>

subsection \<open>Scanners leave the indent stack alone\<close>

lemma advance_stack: "indent_stack (advance lx) = indent_stack lx"
  by (simp add: advance_def split: list.splits)

lemma advance_n_stack: "indent_stack (advance_n n lx) = indent_stack lx"
  by (induction n) (simp_all add: advance_n_def advance_stack)

lemma count_indent_stack: "indent_stack (snd (count_indent i lx)) = indent_stack lx"
  by (induction i lx rule: count_indent.induct, subst count_indent.simps)
     (simp add: advance_stack split: option.splits)

lemma comment_loop_stack: "indent_stack (snd (comment_loop t lx)) = indent_stack lx"
  by (induction t lx rule: comment_loop.induct, subst comment_loop.simps)
     (simp add: advance_stack split: option.splits)

lemma digits_loop_stack: "indent_stack (snd (digits_loop t lx)) = indent_stack lx"
  by (induction t lx rule: digits_loop.induct, subst digits_loop.simps)
     (simp add: advance_stack split: option.splits)

lemma ident_loop_stack: "indent_stack (snd (ident_loop t lx)) = indent_stack lx"
  by (induction t lx rule: ident_loop.induct, subst ident_loop.simps)
     (simp add: advance_stack split: option.splits)

lemma string_loop_stack:
  "string_loop l c q v lx = Inr (v', lx') \<Longrightarrow> indent_stack lx' = indent_stack lx"
proof (induction l c q v lx rule: string_loop.induct)
  case (1 l c q v lx)
  from "1.prems" show ?case
    by (subst (asm) string_loop.simps)
       (auto simp: advance_stack split: option.splits if_splits dest: "1.IH")
qed


lemma handle_comment_stack: "indent_stack (snd (handle_comment toks lx)) = indent_stack lx"
  using comment_loop_stack [of "[]" lx]
  by (auto simp: handle_comment_def Let_def split: prod.splits)

lemma handle_comment_tokens:
  "ty \<noteq> TT_TYPE_COMMENT \<Longrightarrow>
   count_type ty (fst (handle_comment toks lx)) = count_type ty toks"
  by (auto simp: handle_comment_def Let_def count_type_def Token_def split: prod.splits)

lemma number_stack:
  assumes "number lx = Inr (tok, lx')"
  shows "indent_stack lx' = indent_stack lx \<and> tok_type tok = TT_NUMBER"
proof -
  obtain s0 lx0 where d: "number_dot (line lx) (col lx) lx = Inr (s0, lx0)"
    using assms by (auto simp: number_def Let_def split: sum.splits)
  obtain s1 lx1 where i: "digits_loop s0 lx0 = (s1, lx1)"
    by (cases "digits_loop s0 lx0")
  obtain s2 lx2 where f: "number_fraction s1 lx1 = (s2, lx2)"
    by (cases "number_fraction s1 lx1")
  obtain s3 where e: "number_exponent s2 lx2 = Inr (s3, lx')"
    and t: "tok_type tok = TT_NUMBER"
    using assms d i f
    by (auto simp: number_def Let_def Token_def split: sum.splits if_splits)
  have "indent_stack lx0 = indent_stack lx"
    using d by (auto simp: number_dot_def Let_def advance_stack split: if_splits option.splits)
  moreover have "indent_stack lx1 = indent_stack lx0"
    using digits_loop_stack [of s0 lx0] i by simp
  moreover have "indent_stack lx2 = indent_stack lx1"
    using f digits_loop_stack [of "s1 @ ''.''" "advance lx1"]
    by (auto simp: number_fraction_def advance_stack split: if_splits)
  moreover have "indent_stack lx' = indent_stack lx2"
  proof (cases "current_char lx2")
    case None
    with e show ?thesis by (simp add: number_exponent_def)
  next
    case (Some ch)
    show ?thesis
    proof (cases "ch = CHR ''e'' \<or> ch = CHR ''E''")
      case False
      with e Some show ?thesis by (auto simp: number_exponent_def)
    next
      case True
      obtain n2 l2 where
        sg: "(case current_char (advance lx2) of
                None \<Rightarrow> (s2 @ [ch], advance lx2)
              | Some sg \<Rightarrow>
                  if sg = CHR ''+'' \<or> sg = CHR ''-''
                  then ((s2 @ [ch]) @ [sg], advance (advance lx2))
                  else (s2 @ [ch], advance lx2)) = (n2, l2)"
        by (cases "(case current_char (advance lx2) of
                None \<Rightarrow> (s2 @ [ch], advance lx2)
              | Some sg \<Rightarrow>
                  if sg = CHR ''+'' \<or> sg = CHR ''-''
                  then ((s2 @ [ch]) @ [sg], advance (advance lx2))
                  else (s2 @ [ch], advance lx2))")
      have st2: "indent_stack l2 = indent_stack lx2"
        using sg by (auto simp: advance_stack split: option.splits if_splits)
      have "(s3, lx') = digits_loop n2 l2"
        using e Some True sg
        by (auto simp: number_exponent_def Let_def split: option.splits if_splits)
      then have "lx' = snd (digits_loop n2 l2)"
        by (metis snd_conv)
      with digits_loop_stack [of n2 l2] st2 show ?thesis by simp
    qed
  qed
  ultimately show ?thesis using t by simp
qed

lemma identifier_stack:
  "indent_stack (snd (identifier_or_keyword lx)) = indent_stack lx \<and>
   tok_type (fst (identifier_or_keyword lx)) = TT_NAME"
  using ident_loop_stack [of "[]" lx]
  by (auto simp: identifier_or_keyword_def Token_def split: prod.splits)

lemma string_literal_stack:
  "string_literal lx = Inr (tok, lx') \<Longrightarrow>
   indent_stack lx' = indent_stack lx \<and> tok_type tok = TT_STRING"
  by (auto simp: string_literal_def Token_def advance_stack
      split: option.splits sum.splits dest: string_loop_stack)

lemma multi_ops_types:
  "map_of multi_ops k = Some ty \<Longrightarrow> ty \<noteq> TT_INDENT \<and> ty \<noteq> TT_DEDENT"
  by (auto simp: multi_ops_def split: if_splits)

lemma single_map_types:
  "map_of single_map k = Some ty \<Longrightarrow> ty \<noteq> TT_INDENT \<and> ty \<noteq> TT_DEDENT"
  by (auto simp: single_map_def split: if_splits)

lemma operator_stack:
  "operator_or_punct lx = Some (tok, lx') \<Longrightarrow>
   indent_stack lx' = indent_stack lx \<and> tok_type tok \<noteq> TT_INDENT \<and> tok_type tok \<noteq> TT_DEDENT"
  by (auto simp: operator_or_punct_def Token_def advance_stack advance_n_stack
      split: option.splits dest: multi_ops_types single_map_types)


lemma count_type_snoc:
  "count_type ty (toks @ [t]) = count_type ty toks + (if tok_type t = ty then 1 else 0)"
  by (simp add: count_type_def)

lemma balanced_snoc_other:
  "balanced toks stack \<Longrightarrow> tok_type t \<noteq> TT_INDENT \<Longrightarrow> tok_type t \<noteq> TT_DEDENT \<Longrightarrow>
   balanced (toks @ [t]) stack"
  by (simp add: balanced_def count_type_snoc)

lemma dedent_loop_balanced:
  "balanced toks stack \<Longrightarrow> dedent_loop i l c toks stack = (tokens', stack') \<Longrightarrow>
   balanced tokens' stack'"
proof (induction i l c toks stack rule: dedent_loop.induct)
  case (1 indent start_line start_col toks stack)
  show ?case
  proof (cases "stack \<noteq> [] \<and> indent < last stack")
    case False
    with "1.prems" show ?thesis by (subst (asm) dedent_loop.simps) auto
  next
    case True
    have ne: "stack \<noteq> []" and h0: "hd stack = 0" using "1.prems"(1) by (simp_all add: balanced_def)
    have "butlast stack \<noteq> []"
    proof
      assume "butlast stack = []"
      then have "stack = [hd stack]" using ne by (cases stack) (auto split: if_splits)
      then have "last stack = 0" using h0 by (metis last.simps)
      with True show False by simp
    qed
    then have len: "length stack \<ge> 2" and hb: "hd (butlast stack) = 0"
      using ne h0 by (cases stack; cases "tl stack"; auto)+
    have "balanced (toks @ [Token TT_DEDENT VNone start_line start_col]) (butlast stack)"
      using "1.prems"(1) \<open>butlast stack \<noteq> []\<close> hb len
      by (simp add: balanced_def count_type_snoc Token_def)
    moreover have "dedent_loop indent start_line start_col
        (toks @ [Token TT_DEDENT VNone start_line start_col]) (butlast stack) = (tokens', stack')"
      using "1.prems"(2) True by (subst (asm) dedent_loop.simps) simp
    ultimately show ?thesis using "1.IH" [OF True] by simp
  qed
qed

lemma handle_line_start_balanced:
  assumes "balanced toks (indent_stack lx)"
    and "handle_line_start toks lx = Inr (tokens', lx')"
  shows "balanced tokens' (indent_stack lx')"
proof -
  obtain indent lx1 where ci: "count_indent 0 (lx\<lparr>at_line_start := False\<rparr>) = (indent, lx1)"
    by (cases "count_indent 0 (lx\<lparr>at_line_start := False\<rparr>)")
  have st: "indent_stack lx1 = indent_stack lx"
    using count_indent_stack [of 0 "lx\<lparr>at_line_start := False\<rparr>"] ci by simp
  have b1: "balanced toks (indent_stack lx1)" using assms(1) st by simp
  show ?thesis
  proof (cases "current_char lx1 = Some (CHR 0x0A) \<or> current_char lx1 = None
                \<or> current_char lx1 = Some (CHR ''#'')")
    case True
    then have "tokens' = toks \<and> lx' = lx1"
      using assms(2) ci by (auto simp: handle_line_start_def Let_def)
    with b1 show ?thesis by simp
  next
    case False
    have ne: "indent_stack lx1 \<noteq> []" using b1 by (simp add: balanced_def)
    consider (gt) "indent > last (indent_stack lx1)" | (lt) "indent < last (indent_stack lx1)"
      | (eq) "indent = last (indent_stack lx1)" by linarith
    then show ?thesis
    proof cases
      case gt
      then have "tokens' = toks @ [Token TT_INDENT VNone (line lx) (col lx)]"
        and "lx' = lx1\<lparr>indent_stack := indent_stack lx1 @ [indent]\<rparr>"
        using assms(2) ci False ne by (auto simp: handle_line_start_def Let_def)
      with b1 ne show ?thesis
        by (simp add: balanced_def count_type_snoc Token_def)
    next
      case lt
      obtain t1 s1 where dl: "dedent_loop indent (line lx) (col lx) toks (indent_stack lx1) = (t1, s1)"
        by (cases "dedent_loop indent (line lx) (col lx) toks (indent_stack lx1)")
      have "balanced t1 s1" using dedent_loop_balanced [OF b1 dl] .
      moreover have "tokens' = t1 \<and> indent_stack lx' = s1"
        using assms(2) ci False ne lt dl
        by (auto simp: handle_line_start_def Let_def split: if_splits)
      ultimately show ?thesis by simp
    next
      case eq
      then have "tokens' = toks \<and> lx' = lx1"
        using assms(2) ci False ne by (auto simp: handle_line_start_def Let_def)
      with b1 show ?thesis by simp
    qed
  qed
qed

lemma flush_dedents_balanced:
  "balanced toks stack \<Longrightarrow> flush_dedents l c toks stack = (tokens', stack') \<Longrightarrow>
   stack' = [0] \<and> count_type TT_INDENT tokens' = count_type TT_DEDENT tokens'"
proof (induction l c toks stack rule: flush_dedents.induct)
  case (1 l c toks stack)
  show ?case
  proof (cases "length stack > 1")
    case False
    then have "tokens' = toks \<and> stack' = stack"
      using "1.prems"(2) by (subst (asm) flush_dedents.simps) simp
    moreover have "length stack = 1" using False "1.prems"(1)
      by (cases stack) (auto simp: balanced_def)
    moreover have "stack = [0]" using \<open>length stack = 1\<close> "1.prems"(1)
      by (cases stack) (auto simp: balanced_def)
    ultimately show ?thesis using "1.prems"(1) by (simp add: balanced_def)
  next
    case True
    have "balanced (toks @ [Token TT_DEDENT VNone l c]) (butlast stack)"
      using "1.prems"(1) True
      by (cases stack; cases "tl stack")
         (auto simp: balanced_def count_type_snoc Token_def)
    moreover have "flush_dedents l c (toks @ [Token TT_DEDENT VNone l c]) (butlast stack)
        = (tokens', stack')"
      using "1.prems"(2) True by (subst (asm) flush_dedents.simps) simp
    ultimately show ?thesis using "1.IH" [OF True] by simp
  qed
qed


lemma line_start_balanced:
  assumes "balanced toks (indent_stack lx)"
    and "(if at_line_start lx then handle_line_start toks lx else Inr (toks, lx)) =
           Inr (tokens1, lx1)"
  shows "balanced tokens1 (indent_stack lx1)"
proof (cases "at_line_start lx")
  case True
  with assms show ?thesis by (simp add: handle_line_start_balanced)
next
  case False
  with assms show ?thesis by auto
qed

subsection \<open>The main loop keeps INDENT and DEDENT in step with the stack\<close>

lemma tokenize_loop_None:
  "current_char lx = None \<Longrightarrow> tokenize_loop toks lx = Inr (toks, lx)"
  by (subst tokenize_loop.simps) simp

lemma tokenize_loop_Inl:
  "current_char lx = Some c0 \<Longrightarrow> line_start toks lx = Inl e \<Longrightarrow>
   tokenize_loop toks lx = Inl e"
  by (subst tokenize_loop.simps) (simp add: line_start_def)

lemma tokenize_loop_Inr:
  "current_char lx = Some c0 \<Longrightarrow> line_start toks lx = Inr (tokens1, lx1) \<Longrightarrow>
   tokenize_loop toks lx =
     (case current_char lx1 of
        None \<Rightarrow> Inr (tokens1, lx1)
      | Some ch \<Rightarrow>
          if ch = CHR '' '' \<or> ch = CHR 0x09 \<or> ch = CHR 0x0D then
            tokenize_loop tokens1 (advance lx1)
          else if ch = CHR ''#'' then
            tokenize_loop (fst (handle_comment tokens1 lx1))
              (snd (handle_comment tokens1 lx1))
          else if ch = CHR 0x0A then
            tokenize_loop
              (tokens1 @ [Token TT_NEWLINE (VStr [CHR 0x0A]) (line lx1) (col lx1)])
              ((advance lx1)\<lparr>at_line_start := True\<rparr>)
          else if isdigit ch \<or>
              (ch = CHR ''.'' \<and> (case peek lx1 of None \<Rightarrow> False | Some d \<Rightarrow> isdigit d))
          then
            (case number lx1 of
               Inl e \<Rightarrow> Inl e
             | Inr (tok, lx2) \<Rightarrow> tokenize_loop (tokens1 @ [tok]) lx2)
          else if isalpha ch \<or> ch = CHR ''_'' then
            tokenize_loop (tokens1 @ [fst (identifier_or_keyword lx1)])
              (snd (identifier_or_keyword lx1))
          else if ch = CHR 0x22 \<or> ch = CHR 0x27 then
            (case string_literal lx1 of
               Inl e \<Rightarrow> Inl e
             | Inr (tok, lx2) \<Rightarrow> tokenize_loop (tokens1 @ [tok]) lx2)
          else
            (case operator_or_punct lx1 of
               Some (tok, lx2) \<Rightarrow> tokenize_loop (tokens1 @ [tok]) lx2
             | None \<Rightarrow> Inl (LexerError (UnexpectedChar ch) (line lx1) (col lx1))))"
  by (subst tokenize_loop.simps) (simp add: line_start_def)


lemma tokenize_loop_balanced:
  "balanced toks (indent_stack lx) \<Longrightarrow> tokenize_loop toks lx = Inr (tokens', lx') \<Longrightarrow>
   balanced tokens' (indent_stack lx')"
proof (induction toks lx rule: tokenize_loop.induct)
  case (1 toks lx)
  show ?case
  proof (cases "current_char lx")
    case None
    then show ?thesis using "1.prems" by (simp add: tokenize_loop_None)
  next
    case (Some c0)
    note c0 = Some
    show ?thesis
    proof (cases "line_start toks lx")
      case (Inl e)
      then show ?thesis using "1.prems"(2) by (simp add: tokenize_loop_Inl [OF c0])
    next
      case (Inr p)
      obtain tokens1 lx1 where p: "p = (tokens1, lx1)" by (cases p)
      have ls: "line_start toks lx = Inr (tokens1, lx1)" using Inr p by simp
      have ls': "(if at_line_start lx then handle_line_start toks lx else Inr (toks, lx)) =
                   Inr (tokens1, lx1)"
        using ls by (simp add: line_start_def)
      have b1: "balanced tokens1 (indent_stack lx1)"
        using line_start_balanced [OF "1.prems"(1) ls'] .
      note unf = tokenize_loop_Inr [OF c0 ls]
      show ?thesis
      proof (cases "current_char lx1")
        case None
        then have "tokens' = tokens1 \<and> lx' = lx1" using "1.prems"(2) unf by simp
        with b1 show ?thesis by simp
      next
        case (Some ch)
        note ch = Some
        note IH = "1.IH" [OF c0 ls' refl ch]
        show ?thesis
        proof (cases "ch = CHR '' '' \<or> ch = CHR 0x09 \<or> ch = CHR 0x0D")
          case True
          then have "tokenize_loop tokens1 (advance lx1) = Inr (tokens', lx')"
            using "1.prems"(2) unf ch by auto
          moreover have "balanced tokens1 (indent_stack (advance lx1))"
            using b1 by (simp add: advance_stack)
          ultimately show ?thesis using IH(1) [OF True] by simp
        next
          case ws: False
          show ?thesis
          proof (cases "ch = CHR ''#''")
            case True
            have "tokenize_loop (fst (handle_comment tokens1 lx1))
                    (snd (handle_comment tokens1 lx1)) = Inr (tokens', lx')"
              using "1.prems"(2) unf ch ws True by simp
            moreover have "balanced (fst (handle_comment tokens1 lx1))
                             (indent_stack (snd (handle_comment tokens1 lx1)))"
              using b1 by (simp add: balanced_def handle_comment_stack handle_comment_tokens)
            ultimately show ?thesis using IH(2) [OF ws True] by simp
          next
            case hash: False
            show ?thesis
            proof (cases "ch = CHR 0x0A")
              case True
              have "tokenize_loop
                      (tokens1 @ [Token TT_NEWLINE (VStr [CHR 0x0A]) (line lx1) (col lx1)])
                      ((advance lx1)\<lparr>at_line_start := True\<rparr>) = Inr (tokens', lx')"
                using "1.prems"(2) unf ch ws hash True by simp
              moreover have "balanced
                      (tokens1 @ [Token TT_NEWLINE (VStr [CHR 0x0A]) (line lx1) (col lx1)])
                      (indent_stack ((advance lx1)\<lparr>at_line_start := True\<rparr>))"
                using b1 by (simp add: balanced_snoc_other advance_stack Token_def)
              ultimately show ?thesis using IH(3) [OF ws hash True] by simp
            next
              case nl: False
              show ?thesis
              proof (cases "isdigit ch \<or> (ch = CHR ''.'' \<and>
                       (case peek lx1 of None \<Rightarrow> False | Some d \<Rightarrow> isdigit d))")
                case True
                have "(case number lx1 of Inl e \<Rightarrow> Inl e
                       | Inr (tok, lx2) \<Rightarrow> tokenize_loop (tokens1 @ [tok]) lx2)
                      = Inr (tokens', lx')"
                  using "1.prems"(2) unf ch ws hash nl True by simp
                then obtain tok lx2 where n: "number lx1 = Inr (tok, lx2)"
                  and r: "tokenize_loop (tokens1 @ [tok]) lx2 = Inr (tokens', lx')"
                  by (auto split: sum.splits)
                have "balanced (tokens1 @ [tok]) (indent_stack lx2)"
                  using b1 number_stack [OF n] by (simp add: balanced_snoc_other)
                then show ?thesis using IH(4) [OF ws hash nl True n refl] r by simp
              next
                case num: False
                show ?thesis
                proof (cases "isalpha ch \<or> ch = CHR ''_''")
                  case True
                  have "tokenize_loop (tokens1 @ [fst (identifier_or_keyword lx1)])
                          (snd (identifier_or_keyword lx1)) = Inr (tokens', lx')"
                    using "1.prems"(2) unf ch ws hash nl num True by simp
                  moreover have "balanced (tokens1 @ [fst (identifier_or_keyword lx1)])
                                   (indent_stack (snd (identifier_or_keyword lx1)))"
                    using b1 identifier_stack [of lx1] by (simp add: balanced_snoc_other)
                  ultimately show ?thesis using IH(5) [OF ws hash nl num True] by simp
                next
                  case ident: False
                  show ?thesis
                  proof (cases "ch = CHR 0x22 \<or> ch = CHR 0x27")
                    case True
                    have "(case string_literal lx1 of Inl e \<Rightarrow> Inl e
                           | Inr (tok, lx2) \<Rightarrow> tokenize_loop (tokens1 @ [tok]) lx2)
                          = Inr (tokens', lx')"
                      using "1.prems"(2) unf ch ws hash nl num ident True by simp
                    then obtain tok lx2 where n: "string_literal lx1 = Inr (tok, lx2)"
                      and r: "tokenize_loop (tokens1 @ [tok]) lx2 = Inr (tokens', lx')"
                      by (auto split: sum.splits)
                    have "balanced (tokens1 @ [tok]) (indent_stack lx2)"
                      using b1 string_literal_stack [OF n] by (simp add: balanced_snoc_other)
                    then show ?thesis using IH(6) [OF ws hash nl num ident True n refl] r by simp
                  next
                    case str: False
                    have "(case operator_or_punct lx1 of
                             Some (tok, lx2) \<Rightarrow> tokenize_loop (tokens1 @ [tok]) lx2
                           | None \<Rightarrow> Inl (LexerError (UnexpectedChar ch) (line lx1) (col lx1)))
                          = Inr (tokens', lx')"
                      using "1.prems"(2) unf ch ws hash nl num ident str by simp
                    then obtain tok lx2 where n: "operator_or_punct lx1 = Some (tok, lx2)"
                      and r: "tokenize_loop (tokens1 @ [tok]) lx2 = Inr (tokens', lx')"
                      by (auto split: option.splits)
                    have "balanced (tokens1 @ [tok]) (indent_stack lx2)"
                      using b1 operator_stack [OF n] by (simp add: balanced_snoc_other)
                    then show ?thesis using IH(7) [OF ws hash nl num ident str n refl] r by simp
                  qed
                qed
              qed
            qed
          qed
        qed
      qed
    qed
  qed
qed

lemma flush_dedents_stack:
  "stack \<noteq> [] \<Longrightarrow> snd (flush_dedents l c toks stack) = [hd stack]"
proof (induction l c toks stack rule: flush_dedents.induct)
  case (1 l c toks stack)
  show ?case
  proof (cases "length stack > 1")
    case False
    then have "stack = [hd stack]" using "1.prems" by (cases stack) auto
    then show ?thesis using False by (subst flush_dedents.simps) simp
  next
    case True
    then have "butlast stack \<noteq> [] \<and> hd (butlast stack) = hd stack"
      by (cases stack; cases "tl stack") auto
    then show ?thesis using True "1.IH" [OF True] by (subst flush_dedents.simps) simp
  qed
qed

text \<open>
  C8. When the lexer succeeds, its token sequence has as many INDENT as DEDENT toks, and
  the indent stack left after the pending levels are flushed is the base \<open>[0]\<close>.
\<close>

theorem tokenize_indent_dedent_balanced:
  assumes "tokenize text = Inr toks"
  shows "count_type TT_INDENT toks = count_type TT_DEDENT toks \<and>
         (\<exists>tokens0 lx. tokenize_loop [] (lexer_init text) = Inr (tokens0, lx) \<and>
            (\<forall>l c ts. snd (flush_dedents l c ts (indent_stack lx)) = [0]))"
proof -
  obtain tokens0 lx where tl: "tokenize_loop [] (lexer_init text) = Inr (tokens0, lx)"
    using assms by (auto simp: tokenize_def split: sum.splits)
  have "balanced [] (indent_stack (lexer_init text))"
    by (simp add: balanced_def lexer_init_def count_type_def)
  then have b0: "balanced tokens0 (indent_stack lx)"
    using tokenize_loop_balanced tl by blast
  define tokens1 where "tokens1 =
     (if tokens0 \<noteq> [] \<and> tok_type (last tokens0) \<noteq> TT_NEWLINE
      then tokens0 @ [Token TT_NEWLINE (VStr [CHR 0x0A]) (line lx) (col lx)] else tokens0)"
  have b1: "balanced tokens1 (indent_stack lx)"
    using b0 by (simp add: tokens1_def balanced_snoc_other Token_def)
  obtain tokens2 stack where fl:
    "flush_dedents (line lx) (col lx) tokens1 (indent_stack lx) = (tokens2, stack)"
    by (cases "flush_dedents (line lx) (col lx) tokens1 (indent_stack lx)")
  have "toks = tokens2 @ [Token TT_ENDMARKER VNone (line lx) (col lx)]"
    using assms tl fl by (simp add: tokenize_def Let_def tokens1_def)
  with flush_dedents_balanced [OF b1 fl]
  have "count_type TT_INDENT toks = count_type TT_DEDENT toks"
    by (simp add: count_type_snoc Token_def)
  moreover have "\<forall>l c ts. snd (flush_dedents l c ts (indent_stack lx)) = [0]"
    using b0 by (simp add: balanced_def flush_dedents_stack)
  ultimately show ?thesis using tl by blast
qed

theorem tokenize_indent_dedent_balanced_witness:
  "tokenize ''if x:\<newline>  y\<newline>'' =
     Inr [Token TT_NAME (VStr ''if'') 1 1, Token TT_NAME (VStr ''x'') 1 4,
          Token TT_COLON (VStr '':'') 1 5, Token TT_NEWLINE (VStr [CHR 0x0A]) 1 6,
          Token TT_INDENT VNone 2 1, Token TT_NAME (VStr ''y'') 2 3,
          Token TT_NEWLINE (VStr [CHR 0x0A]) 2 4, Token TT_DEDENT VNone 3 1,
          Token TT_ENDMARKER VNone 3 1] \<and>
   count_type TT_INDENT
     [Token TT_NAME (VStr ''if'') 1 1, Token TT_NAME (VStr ''x'') 1 4,
      Token TT_COLON (VStr '':'') 1 5, Token TT_NEWLINE (VStr [CHR 0x0A]) 1 6,
      Token TT_INDENT VNone 2 1, Token TT_NAME (VStr ''y'') 2 3,
      Token TT_NEWLINE (VStr [CHR 0x0A]) 2 4, Token TT_DEDENT VNone 3 1,
      Token TT_ENDMARKER VNone 3 1] = 1"
proof -
  have h: "tokenize ''if x:\<newline>  y\<newline>'' =
     Inr [Token TT_NAME (VStr ''if'') 1 1, Token TT_NAME (VStr ''x'') 1 4,
          Token TT_COLON (VStr '':'') 1 5, Token TT_NEWLINE (VStr [CHR 0x0A]) 1 6,
          Token TT_INDENT VNone 2 1, Token TT_NAME (VStr ''y'') 2 3,
          Token TT_NEWLINE (VStr [CHR 0x0A]) 2 4, Token TT_DEDENT VNone 3 1,
          Token TT_ENDMARKER VNone 3 1]"
    by code_simp
  from tokenize_indent_dedent_balanced [OF h] h show ?thesis
    by (simp add: count_type_def Token_def)
qed

subsection \<open>Particular inputs\<close>


text \<open>
  C10. Lexing the empty text succeeds with exactly one token, the ENDMARKER at line 1,
  column 1: no NEWLINE is added to an empty token list and no INDENT or DEDENT appears.
\<close>

theorem empty_source_tokens: "tokenize [] = Inr [Token TT_ENDMARKER VNone 1 1]"
  by code_simp





















section \<open>Properties of the symbol table and the parser\<close>

subsection \<open>Where a redeclaration fault can come from\<close>

lemma fsf_Ok [simp]: "func_scope_fault (Ok x p)"
  and fsf_OutOfFuel [simp]: "func_scope_fault OutOfFuel"
  and fsf_ParserError [simp]: "func_scope_fault (Fail (ParserError m t))"
  by (simp_all add: func_scope_fault_def)

lemma fsf_lift [simp]: "func_scope_fault (lift r)"
  by (cases r rule: lift.cases) simp_all

lemma fsf_bind:
  "func_scope_fault r \<Longrightarrow> (\<And>x p. func_scope_fault (f x p)) \<Longrightarrow> func_scope_fault (bind r f)"
  by (cases r) (simp_all add: func_scope_fault_def)

lemma define_if_absent_no_redeclared:
  "define_if_absent n k ty p \<noteq> Fail (RuntimeError (Redeclared s x))"
  by (auto simp: define_if_absent_def current_scope_def table_define_def lookup_local_def
      Let_def map_of_eq_None_iff split: sum.splits if_splits)

lemma fsf_define_if_absent [simp]: "func_scope_fault (define_if_absent n k ty p)"
  by (simp add: func_scope_fault_def define_if_absent_no_redeclared)

lemma fsf_ensure_assignable [simp]: "func_scope_fault (ensure_assignable e p)"
  by (cases e) simp_all

lemma fsf_register_target [simp]: "func_scope_fault (register_target e p)"
  by (cases e) simp_all

lemma fsf_return [simp]: "func_scope_fault (parse_return_stmt n p)"
  by (auto simp: parse_return_stmt_def intro!: fsf_bind)

lemma fsf_pass [simp]: "func_scope_fault (parse_pass_stmt p)"
  and fsf_break [simp]: "func_scope_fault (parse_break_stmt p)"
  and fsf_continue [simp]: "func_scope_fault (parse_continue_stmt p)"
  by (auto simp: parse_pass_stmt_def parse_break_stmt_def parse_continue_stmt_def
      intro!: fsf_bind)

lemma fsf_expr_or_assignment [simp]: "func_scope_fault (parse_expr_or_assignment n p)"
  by (auto simp: parse_expr_or_assignment_def Let_def intro!: fsf_bind split: option.splits)

lemma fsf_simple_stmt [simp]: "func_scope_fault (parse_simple_stmt n p)"
  by (auto simp: parse_simple_stmt_def intro!: fsf_bind)

lemma fsf_block_loop:
  "(\<And>q. func_scope_fault (ps q)) \<Longrightarrow> func_scope_fault (block_loop n ps stmts p)"
  by (induction n arbitrary: stmts p) (auto intro!: fsf_bind)

lemma fsf_block:
  "(\<And>q. func_scope_fault (ps q)) \<Longrightarrow> func_scope_fault (parse_block n ps p)"
  by (auto simp: parse_block_def intro!: fsf_bind fsf_block_loop)

lemma fsf_orelse_chain:
  "(\<And>q. func_scope_fault (pb q)) \<Longrightarrow> func_scope_fault (orelse_chain n m pb p)"
  by (induction n arbitrary: p) (auto intro!: fsf_bind)

lemma fsf_else:
  "(\<And>q. func_scope_fault (pb q)) \<Longrightarrow> func_scope_fault (parse_else pb p)"
  by (auto simp: parse_else_def intro!: fsf_bind)

lemma fsf_if:
  "(\<And>q. func_scope_fault (pb q)) \<Longrightarrow> func_scope_fault (parse_if_stmt n pb p)"
  by (auto simp: parse_if_stmt_def intro!: fsf_bind fsf_orelse_chain)

lemma fsf_while:
  "(\<And>q. func_scope_fault (pb q)) \<Longrightarrow> func_scope_fault (parse_while_stmt n pb p)"
  by (auto simp: parse_while_stmt_def intro!: fsf_bind fsf_else)

lemma fsf_for:
  "(\<And>q. func_scope_fault (pb q)) \<Longrightarrow> func_scope_fault (parse_for_stmt n pb p)"
  by (auto simp: parse_for_stmt_def intro!: fsf_bind fsf_else)


lemma stack_define_snoc:
  "stack_define (parents @ [t]) n k ty =
     (case table_define t n k ty of
        Inl e \<Rightarrow> Inl e
      | Inr (entry, t') \<Rightarrow> Inr (entry, parents @ [t']))"
  by (simp add: stack_define_def current_scope_def split: sum.splits)

lemma table_define_Inl:
  "table_define t n k ty = Inl e \<longleftrightarrow>
     n \<in> fst ` set (entries t) \<and> e = RuntimeError (Redeclared (scope_name t) n)"
  by (auto simp: table_define_def Let_def)

lemma table_define_Inr:
  "table_define t n k ty = Inr (entry, t') \<Longrightarrow>
     scope_name t' = scope_name t \<and> fst ` set (entries t') = insert n (fst ` set (entries t))"
  by (auto simp: table_define_def Let_def split: if_splits)

lemma define_params_Inl:
  "define_params params (parents @ [t]) = Inl e \<Longrightarrow>
     \<exists>x. e = RuntimeError (Redeclared (scope_name t) x) \<and> x \<in> arg_name ` set params"
proof (induction params arbitrary: t)
  case Nil
  then show ?case by simp
next
  case (Cons a as)
  show ?case
  proof (cases "table_define t (arg_name a) ''param'' ''unknown''")
    case (Inl e')
    have "e = e'" using Cons.prems Inl by (simp add: stack_define_snoc)
    moreover have "e' = RuntimeError (Redeclared (scope_name t) (arg_name a))"
      using Inl by (simp add: table_define_Inl)
    ultimately show ?thesis by auto
  next
    case (Inr r)
    obtain entry t' where r: "r = (entry, t')" by (cases r)
    have "define_params as (parents @ [t']) = Inl e"
      using Cons.prems Inr r by (simp add: stack_define_snoc)
    from Cons.IH [OF this] table_define_Inr [of t "arg_name a" _ _ entry t'] Inr r
    show ?thesis by auto
  qed
qed

lemma define_params_fails_iff:
  "(\<exists>e. define_params params (parents @ [t]) = Inl e) \<longleftrightarrow>
     \<not> (distinct (map arg_name params) \<and> arg_name ` set params \<inter> fst ` set (entries t) = {})"
proof (induction params arbitrary: t)
  case Nil
  then show ?case by simp
next
  case (Cons a as)
  show ?case
  proof (cases "table_define t (arg_name a) ''param'' ''unknown''")
    case (Inl e')
    have "define_params (a # as) (parents @ [t]) = Inl e'"
      using Inl by (simp add: stack_define_snoc)
    moreover have "arg_name a \<in> fst ` set (entries t)"
      using Inl by (simp add: table_define_Inl)
    ultimately show ?thesis by auto
  next
    case (Inr r)
    obtain entry t' where r: "r = (entry, t')" by (cases r)
    have notin: "arg_name a \<notin> fst ` set (entries t)"
      using Inr by (auto simp: table_define_def Let_def split: if_splits)
    have keys: "fst ` set (entries t') = insert (arg_name a) (fst ` set (entries t))"
      using table_define_Inr [of t "arg_name a" _ _ entry t'] Inr r by simp
    have "(\<exists>e. define_params (a # as) (parents @ [t]) = Inl e) \<longleftrightarrow>
          (\<exists>e. define_params as (parents @ [t']) = Inl e)"
      using Inr r by (simp add: stack_define_snoc)
    also have "\<dots> \<longleftrightarrow> \<not> (distinct (map arg_name as) \<and>
                 arg_name ` set as \<inter> fst ` set (entries t') = {})"
      by (rule Cons.IH)
    also have "\<dots> \<longleftrightarrow> \<not> (distinct (map arg_name (a # as)) \<and>
                 arg_name ` set (a # as) \<inter> fst ` set (entries t) = {})"
      using notin keys by auto
    finally show ?thesis .
  qed
qed

lemma fsf_pop:
  "func_scope_fault
     (case pop_scope st of
        Inl e \<Rightarrow> Fail e
      | Inr (popped, st1) \<Rightarrow> Ok x (q\<lparr>symstack := st1\<rparr>))"
  by (simp add: pop_scope_def func_scope_fault_def)

lemma fsf_define_params:
  assumes "\<And>st'. func_scope_fault (k st')"
  shows "func_scope_fault
     (case define_params params (snd (push_scope (''func '' @ f) st)) of
        Inl e \<Rightarrow> Fail e
      | Inr st' \<Rightarrow> k st')"
proof (cases "define_params params (snd (push_scope (''func '' @ f) st))")
  case (Inl e)
  then have "define_params params (st @ [\<lparr>scope_name = ''func '' @ f, entries = []\<rparr>]) = Inl e"
    by (simp add: push_scope_def Let_def)
  from define_params_Inl [OF this] Inl show ?thesis
    by (auto simp: func_scope_fault_def)
next
  case (Inr st')
  then show ?thesis using assms by simp
qed

lemma fsf_function_def:
  assumes "\<And>q. func_scope_fault (pb q)"
  shows "func_scope_fault (parse_function_def n pb p)"
  unfolding parse_function_def_def Let_def
  by (intro fsf_bind fsf_lift fsf_define_if_absent fsf_define_params fsf_pop assms)

lemma fsf_statement: "func_scope_fault (parse_statement n p)"
proof (induction n arbitrary: p)
  case 0
  show ?case by simp
next
  case (Suc n)
  have pb: "\<And>q. func_scope_fault (parse_block n (parse_statement n) q)"
    by (rule fsf_block) (rule Suc.IH)
  show ?case
    by (simp add: fsf_if fsf_while fsf_for fsf_function_def pb)
qed

lemma fsf_parse_loop: "func_scope_fault (parse_loop n m body p)"
  by (induction n arbitrary: body p) (auto intro!: fsf_bind fsf_statement)

lemma fsf_parse: "func_scope_fault (parse n p)"
  by (auto simp: parse_def intro!: fsf_bind fsf_parse_loop)

lemma fsf_parse_tokens: "func_scope_fault (parse_tokens n toks)"
  by (auto simp: parse_tokens_def parser_init_def fsf_parse func_scope_fault_def [of "Fail ValueError"]
      split: list.splits)

subsection \<open>The parser stays on its token list\<close>

lemma stays_on_Ok [simp]: "stays_on toks (Ok x q) \<longleftrightarrow> on_tokens toks q"
  and stays_on_Fail [simp]: "stays_on toks (Fail e)"
  and stays_on_OutOfFuel [simp]: "stays_on toks OutOfFuel"
  by (simp_all add: stays_on_def)

lemma stays_on_bind:
  "stays_on toks r \<Longrightarrow> (\<And>v q. on_tokens toks q \<Longrightarrow> stays_on toks (f v q)) \<Longrightarrow>
   stays_on toks (bind r f)"
  by (cases r) simp_all

lemma stays_on_lift [simp]: "stays_on toks (lift r) \<longleftrightarrow> stays_on toks r"
  by (cases r rule: lift.cases) simp_all

lemma on_tokens_advance [simp]: "on_tokens toks p \<Longrightarrow> on_tokens toks (p_advance p)"
  by (auto simp: on_tokens_def p_advance_def)

lemma on_tokens_symstack [simp]: "on_tokens toks (p\<lparr>symstack := st\<rparr>) \<longleftrightarrow> on_tokens toks p"
  by (simp add: on_tokens_def)

lemma stays_on_eat [simp]: "on_tokens toks p \<Longrightarrow> stays_on toks (eat ty p)"
  by (simp add: eat_def)

lemma stays_on_expect_keyword [simp]:
  "on_tokens toks p \<Longrightarrow> stays_on toks (expect_keyword word p)"
  by (simp add: expect_keyword_def)

lemma stays_on_p_error [simp]: "stays_on toks (p_error m p)"
  by (simp add: p_error_def)

lemma stays_on_atom:
  "(\<And>q. on_tokens toks q \<Longrightarrow> stays_on toks (pe q)) \<Longrightarrow> on_tokens toks p \<Longrightarrow>
   stays_on toks (parse_atom pe p)"
  by (auto simp: parse_atom_def Let_def intro!: stays_on_bind)

lemma stays_on_arglist_loop:
  "(\<And>q. on_tokens toks q \<Longrightarrow> stays_on toks (pe q)) \<Longrightarrow> on_tokens toks p \<Longrightarrow>
   stays_on toks (arglist_loop n pe args kws p)"
  by (induction n arbitrary: args kws p)
     (auto simp: Let_def intro!: stays_on_bind)

lemma stays_on_arglist:
  "(\<And>q. on_tokens toks q \<Longrightarrow> stays_on toks (pe q)) \<Longrightarrow> on_tokens toks p \<Longrightarrow>
   stays_on toks (parse_arglist n pe p)"
  by (simp add: parse_arglist_def stays_on_arglist_loop)

lemma stays_on_primary_loop:
  "(\<And>q. on_tokens toks q \<Longrightarrow> stays_on toks (pe q)) \<Longrightarrow> on_tokens toks p \<Longrightarrow>
   stays_on toks (primary_loop n pe node p)"
  by (induction n arbitrary: node p)
     (auto intro!: stays_on_bind stays_on_arglist)

lemma stays_on_primary:
  "(\<And>q. on_tokens toks q \<Longrightarrow> stays_on toks (pe q)) \<Longrightarrow> on_tokens toks p \<Longrightarrow>
   stays_on toks (parse_primary n pe p)"
  by (auto simp: parse_primary_def intro!: stays_on_bind stays_on_atom stays_on_primary_loop)

lemma stays_on_power:
  "(\<And>q. on_tokens toks q \<Longrightarrow> stays_on toks (pe q)) \<Longrightarrow>
   (\<And>q. on_tokens toks q \<Longrightarrow> stays_on toks (pf q)) \<Longrightarrow> on_tokens toks p \<Longrightarrow>
   stays_on toks (parse_power pf n pe p)"
  by (auto simp: parse_power_def intro!: stays_on_bind stays_on_primary)

lemma stays_on_factor:
  "(\<And>q. on_tokens toks q \<Longrightarrow> stays_on toks (pe q)) \<Longrightarrow> on_tokens toks p \<Longrightarrow>
   stays_on toks (parse_factor n pe p)"
  by (induction n arbitrary: p)
     (auto simp: Let_def intro!: stays_on_bind stays_on_power)

lemma stays_on_term_loop:
  "(\<And>q. on_tokens toks q \<Longrightarrow> stays_on toks (pf q)) \<Longrightarrow> on_tokens toks p \<Longrightarrow>
   stays_on toks (term_loop n pf node p)"
  by (induction n arbitrary: node p) (auto simp: Let_def intro!: stays_on_bind)

lemma stays_on_term:
  "(\<And>q. on_tokens toks q \<Longrightarrow> stays_on toks (pe q)) \<Longrightarrow> on_tokens toks p \<Longrightarrow>
   stays_on toks (parse_term n pe p)"
  by (auto simp: parse_term_def intro!: stays_on_bind stays_on_factor stays_on_term_loop)

lemma stays_on_arith_loop:
  "(\<And>q. on_tokens toks q \<Longrightarrow> stays_on toks (pt q)) \<Longrightarrow> on_tokens toks p \<Longrightarrow>
   stays_on toks (arith_loop n pt node p)"
  by (induction n arbitrary: node p) (auto simp: Let_def intro!: stays_on_bind)

lemma stays_on_arith_expr:
  "(\<And>q. on_tokens toks q \<Longrightarrow> stays_on toks (pe q)) \<Longrightarrow> on_tokens toks p \<Longrightarrow>
   stays_on toks (parse_arith_expr n pe p)"
  by (auto simp: parse_arith_expr_def intro!: stays_on_bind stays_on_term stays_on_arith_loop)

lemma stays_on_comparison_loop:
  "(\<And>q. on_tokens toks q \<Longrightarrow> stays_on toks (pa q)) \<Longrightarrow> on_tokens toks p \<Longrightarrow>
   stays_on toks (comparison_loop n pa ops comparators p)"
  by (induction n arbitrary: ops comparators p)
     (auto intro!: stays_on_bind split: option.splits)

lemma stays_on_comparison:
  "(\<And>q. on_tokens toks q \<Longrightarrow> stays_on toks (pe q)) \<Longrightarrow> on_tokens toks p \<Longrightarrow>
   stays_on toks (parse_comparison n pe p)"
  by (auto simp: parse_comparison_def
      intro!: stays_on_bind stays_on_arith_expr stays_on_comparison_loop)

lemma stays_on_not:
  "(\<And>q. on_tokens toks q \<Longrightarrow> stays_on toks (pc q)) \<Longrightarrow> on_tokens toks p \<Longrightarrow>
   stays_on toks (parse_not n pc p)"
  by (induction n arbitrary: p) (auto intro!: stays_on_bind)

lemma stays_on_boolop_chain:
  "(\<And>q. on_tokens toks q \<Longrightarrow> stays_on toks (sub q)) \<Longrightarrow> on_tokens toks p \<Longrightarrow>
   stays_on toks (boolop_chain n word sub node p)"
  by (induction n arbitrary: node p) (auto intro!: stays_on_bind)

lemma stays_on_and:
  "(\<And>q. on_tokens toks q \<Longrightarrow> stays_on toks (pe q)) \<Longrightarrow> on_tokens toks p \<Longrightarrow>
   stays_on toks (parse_and n pe p)"
  by (auto simp: parse_and_def
      intro!: stays_on_bind stays_on_not stays_on_comparison stays_on_boolop_chain)

lemma stays_on_or:
  "(\<And>q. on_tokens toks q \<Longrightarrow> stays_on toks (pe q)) \<Longrightarrow> on_tokens toks p \<Longrightarrow>
   stays_on toks (parse_or n pe p)"
  by (auto simp: parse_or_def intro!: stays_on_bind stays_on_and stays_on_boolop_chain)

lemma stays_on_expression:
  "on_tokens toks p \<Longrightarrow> stays_on toks (parse_expression n p)"
  by (induction n arbitrary: p) (auto intro!: stays_on_or)

lemma stays_on_parameters_loop:
  "on_tokens toks p \<Longrightarrow> stays_on toks (parameters_loop n params p)"
  by (induction n arbitrary: params p) (auto simp: Let_def intro!: stays_on_bind)

lemma stays_on_parameters:
  "on_tokens toks p \<Longrightarrow> stays_on toks (parse_parameters n p)"
  by (simp add: parse_parameters_def stays_on_parameters_loop)

lemma stays_on_define_if_absent [simp]:
  "on_tokens toks p \<Longrightarrow> stays_on toks (define_if_absent n k ty p)"
  by (auto simp: define_if_absent_def split: sum.splits)

lemma stays_on_ensure_assignable [simp]:
  "on_tokens toks p \<Longrightarrow> stays_on toks (ensure_assignable e p)"
  by (cases e) simp_all

lemma stays_on_register_target [simp]:
  "on_tokens toks p \<Longrightarrow> stays_on toks (register_target e p)"
  by (cases e) simp_all

lemma stays_on_return [simp]:
  "on_tokens toks p \<Longrightarrow> stays_on toks (parse_return_stmt n p)"
  by (auto simp: parse_return_stmt_def stays_on_expression intro!: stays_on_bind)

lemma stays_on_pass [simp]: "on_tokens toks p \<Longrightarrow> stays_on toks (parse_pass_stmt p)"
  and stays_on_break [simp]: "on_tokens toks p \<Longrightarrow> stays_on toks (parse_break_stmt p)"
  and stays_on_continue [simp]: "on_tokens toks p \<Longrightarrow> stays_on toks (parse_continue_stmt p)"
  by (auto simp: parse_pass_stmt_def parse_break_stmt_def parse_continue_stmt_def
      intro!: stays_on_bind)

lemma stays_on_expr_or_assignment [simp]:
  "on_tokens toks p \<Longrightarrow> stays_on toks (parse_expr_or_assignment n p)"
  by (auto simp: parse_expr_or_assignment_def Let_def stays_on_expression
      intro!: stays_on_bind split: option.splits)

lemma stays_on_simple_stmt [simp]:
  "on_tokens toks p \<Longrightarrow> stays_on toks (parse_simple_stmt n p)"
  by (auto simp: parse_simple_stmt_def intro!: stays_on_bind)

lemma stays_on_block_loop:
  "(\<And>q. on_tokens toks q \<Longrightarrow> stays_on toks (ps q)) \<Longrightarrow> on_tokens toks p \<Longrightarrow>
   stays_on toks (block_loop n ps stmts p)"
  by (induction n arbitrary: stmts p) (auto intro!: stays_on_bind)

lemma stays_on_block:
  "(\<And>q. on_tokens toks q \<Longrightarrow> stays_on toks (ps q)) \<Longrightarrow> on_tokens toks p \<Longrightarrow>
   stays_on toks (parse_block n ps p)"
  by (auto simp: parse_block_def intro!: stays_on_bind stays_on_block_loop)

lemma stays_on_orelse_chain:
  "(\<And>q. on_tokens toks q \<Longrightarrow> stays_on toks (pb q)) \<Longrightarrow> on_tokens toks p \<Longrightarrow>
   stays_on toks (orelse_chain n m pb p)"
  by (induction n arbitrary: p) (auto simp: stays_on_expression intro!: stays_on_bind)

lemma stays_on_else:
  "(\<And>q. on_tokens toks q \<Longrightarrow> stays_on toks (pb q)) \<Longrightarrow> on_tokens toks p \<Longrightarrow>
   stays_on toks (parse_else pb p)"
  by (auto simp: parse_else_def intro!: stays_on_bind)

lemma stays_on_if:
  "(\<And>q. on_tokens toks q \<Longrightarrow> stays_on toks (pb q)) \<Longrightarrow> on_tokens toks p \<Longrightarrow>
   stays_on toks (parse_if_stmt n pb p)"
  by (auto simp: parse_if_stmt_def stays_on_expression
      intro!: stays_on_bind stays_on_orelse_chain)

lemma stays_on_while:
  "(\<And>q. on_tokens toks q \<Longrightarrow> stays_on toks (pb q)) \<Longrightarrow> on_tokens toks p \<Longrightarrow>
   stays_on toks (parse_while_stmt n pb p)"
  by (auto simp: parse_while_stmt_def stays_on_expression
      intro!: stays_on_bind stays_on_else)

lemma stays_on_for:
  "(\<And>q. on_tokens toks q \<Longrightarrow> stays_on toks (pb q)) \<Longrightarrow> on_tokens toks p \<Longrightarrow>
   stays_on toks (parse_for_stmt n pb p)"
  by (auto simp: parse_for_stmt_def stays_on_expression
      intro!: stays_on_bind stays_on_else)

lemma stays_on_def_header:
  "on_tokens toks p \<Longrightarrow> stays_on toks (def_header n p)"
  by (auto simp: def_header_def Let_def stays_on_parameters intro!: stays_on_bind)

text \<open>\<open>parse_function_def\<close> is its header followed by the new scope and the body.\<close>

lemma bind_assoc: "bind (bind r f) g = bind r (\<lambda>x p. bind (f x p) g)"
  by (cases r) simp_all

lemma parse_function_def_header:
  "parse_function_def n pb p =
     bind (def_header n p) (\<lambda>(func_name, params) p7.
       (case define_params params (snd (push_scope (''func '' @ func_name) (symstack p7))) of
          Inl e \<Rightarrow> Fail e
        | Inr st \<Rightarrow>
            bind (pb (p7\<lparr>symstack := st\<rparr>)) (\<lambda>body p8.
              (case pop_scope (symstack p8) of
                 Inl e \<Rightarrow> Fail e
               | Inr (popped, st1) \<Rightarrow>
                   Ok (FunctionDef func_name (Arguments params) body None [])
                      (p8\<lparr>symstack := st1\<rparr>)))))"
  by (simp add: parse_function_def_def def_header_def Let_def bind_assoc)

lemma stays_on_pop:
  "on_tokens toks q \<Longrightarrow>
   stays_on toks
     (case pop_scope st of
        Inl e \<Rightarrow> Fail e
      | Inr (popped, st1) \<Rightarrow> Ok x (q\<lparr>symstack := st1\<rparr>))"
  by (simp split: sum.splits prod.splits)

lemma stays_on_function_def:
  assumes "\<And>q. on_tokens toks q \<Longrightarrow> stays_on toks (pb q)" and "on_tokens toks p"
  shows "stays_on toks (parse_function_def n pb p)"
  unfolding parse_function_def_header
  by (rule stays_on_bind [OF stays_on_def_header [OF assms(2)]])
     (auto split: sum.splits intro!: stays_on_bind assms(1) stays_on_pop)

lemma stays_on_statement:
  "on_tokens toks p \<Longrightarrow> stays_on toks (parse_statement n p)"
proof (induction n arbitrary: p)
  case 0
  show ?case by simp
next
  case (Suc n)
  have pb: "\<And>q. on_tokens toks q \<Longrightarrow> stays_on toks (parse_block n (parse_statement n) q)"
    by (rule stays_on_block) (rule Suc.IH)
  show ?case using Suc.prems
    by (simp add: stays_on_if stays_on_while stays_on_for stays_on_function_def pb)
qed

subsection \<open>A redeclaration fault comes from the parameters of a header\<close>

lemma dpf_Ok [simp]: "duplicate_param_fault toks (Ok x p)"
  and dpf_OutOfFuel [simp]: "duplicate_param_fault toks OutOfFuel"
  and dpf_ParserError [simp]: "duplicate_param_fault toks (Fail (ParserError m t))"
  by (simp_all add: duplicate_param_fault_def)

lemma dpf_lift [simp]: "duplicate_param_fault toks (lift r)"
  by (cases r rule: lift.cases) simp_all

lemma dpf_bind:
  "stays_on toks r \<Longrightarrow> duplicate_param_fault toks r \<Longrightarrow>
   (\<And>v q. on_tokens toks q \<Longrightarrow> duplicate_param_fault toks (f v q)) \<Longrightarrow>
   duplicate_param_fault toks (bind r f)"
  by (cases r) (simp_all add: duplicate_param_fault_def)

lemma dpf_define_if_absent [simp]: "duplicate_param_fault toks (define_if_absent n k ty p)"
  by (simp add: duplicate_param_fault_def define_if_absent_no_redeclared)

lemma dpf_ensure_assignable [simp]: "duplicate_param_fault toks (ensure_assignable e p)"
  by (cases e) simp_all

lemma dpf_register_target [simp]: "duplicate_param_fault toks (register_target e p)"
  by (cases e) simp_all

lemma dpf_return [simp]:
  "on_tokens toks p \<Longrightarrow> duplicate_param_fault toks (parse_return_stmt n p)"
  by (auto simp: parse_return_stmt_def stays_on_expression intro!: dpf_bind)

lemma dpf_pass [simp]: "on_tokens toks p \<Longrightarrow> duplicate_param_fault toks (parse_pass_stmt p)"
  and dpf_break [simp]: "on_tokens toks p \<Longrightarrow> duplicate_param_fault toks (parse_break_stmt p)"
  and dpf_continue [simp]:
    "on_tokens toks p \<Longrightarrow> duplicate_param_fault toks (parse_continue_stmt p)"
  by (auto simp: parse_pass_stmt_def parse_break_stmt_def parse_continue_stmt_def
      intro!: dpf_bind)

lemma dpf_expr_or_assignment [simp]:
  "on_tokens toks p \<Longrightarrow> duplicate_param_fault toks (parse_expr_or_assignment n p)"
  by (auto simp: parse_expr_or_assignment_def Let_def stays_on_expression
      intro!: dpf_bind split: option.splits)

lemma dpf_simple_stmt [simp]:
  "on_tokens toks p \<Longrightarrow> duplicate_param_fault toks (parse_simple_stmt n p)"
  by (auto simp: parse_simple_stmt_def intro!: dpf_bind stays_on_bind)

lemma dpf_block_loop:
  "(\<And>q. on_tokens toks q \<Longrightarrow> stays_on toks (ps q)) \<Longrightarrow>
   (\<And>q. on_tokens toks q \<Longrightarrow> duplicate_param_fault toks (ps q)) \<Longrightarrow> on_tokens toks p \<Longrightarrow>
   duplicate_param_fault toks (block_loop n ps stmts p)"
  by (induction n arbitrary: stmts p) (auto intro!: dpf_bind)

lemma dpf_block:
  "(\<And>q. on_tokens toks q \<Longrightarrow> stays_on toks (ps q)) \<Longrightarrow>
   (\<And>q. on_tokens toks q \<Longrightarrow> duplicate_param_fault toks (ps q)) \<Longrightarrow> on_tokens toks p \<Longrightarrow>
   duplicate_param_fault toks (parse_block n ps p)"
  by (auto simp: parse_block_def intro!: dpf_bind dpf_block_loop stays_on_block_loop)

lemma dpf_orelse_chain:
  "(\<And>q. on_tokens toks q \<Longrightarrow> stays_on toks (pb q)) \<Longrightarrow>
   (\<And>q. on_tokens toks q \<Longrightarrow> duplicate_param_fault toks (pb q)) \<Longrightarrow> on_tokens toks p \<Longrightarrow>
   duplicate_param_fault toks (orelse_chain n m pb p)"
  by (induction n arbitrary: p)
     (auto simp: stays_on_expression intro!: dpf_bind stays_on_orelse_chain)

lemma dpf_else:
  "(\<And>q. on_tokens toks q \<Longrightarrow> stays_on toks (pb q)) \<Longrightarrow>
   (\<And>q. on_tokens toks q \<Longrightarrow> duplicate_param_fault toks (pb q)) \<Longrightarrow> on_tokens toks p \<Longrightarrow>
   duplicate_param_fault toks (parse_else pb p)"
  by (auto simp: parse_else_def intro!: dpf_bind)

lemma dpf_if:
  "(\<And>q. on_tokens toks q \<Longrightarrow> stays_on toks (pb q)) \<Longrightarrow>
   (\<And>q. on_tokens toks q \<Longrightarrow> duplicate_param_fault toks (pb q)) \<Longrightarrow> on_tokens toks p \<Longrightarrow>
   duplicate_param_fault toks (parse_if_stmt n pb p)"
  by (auto simp: parse_if_stmt_def stays_on_expression
      intro!: dpf_bind dpf_orelse_chain stays_on_orelse_chain)

lemma dpf_while:
  "(\<And>q. on_tokens toks q \<Longrightarrow> stays_on toks (pb q)) \<Longrightarrow>
   (\<And>q. on_tokens toks q \<Longrightarrow> duplicate_param_fault toks (pb q)) \<Longrightarrow> on_tokens toks p \<Longrightarrow>
   duplicate_param_fault toks (parse_while_stmt n pb p)"
  by (auto simp: parse_while_stmt_def stays_on_expression
      intro!: dpf_bind dpf_else stays_on_else)

lemma dpf_for:
  "(\<And>q. on_tokens toks q \<Longrightarrow> stays_on toks (pb q)) \<Longrightarrow>
   (\<And>q. on_tokens toks q \<Longrightarrow> duplicate_param_fault toks (pb q)) \<Longrightarrow> on_tokens toks p \<Longrightarrow>
   duplicate_param_fault toks (parse_for_stmt n pb p)"
  by (auto simp: parse_for_stmt_def stays_on_expression
      intro!: dpf_bind dpf_else stays_on_else)

text \<open>
  The fault of \<open>define_params\<close>: the name it reports is already in the scope and is the
  name of a parameter, or it is the name of two parameters.
\<close>

lemma define_params_Inl_count:
  "define_params params (parents @ [t]) = Inl e \<Longrightarrow>
     \<exists>x. e = RuntimeError (Redeclared (scope_name t) x) \<and>
         (x \<in> fst ` set (entries t) \<and> x \<in> arg_name ` set params \<or>
          1 < count_list (map arg_name params) x)"
proof (induction params arbitrary: t)
  case Nil
  then show ?case by simp
next
  case (Cons a as)
  show ?case
  proof (cases "table_define t (arg_name a) ''param'' ''unknown''")
    case (Inl e')
    have "e = e'" using Cons.prems Inl by (simp add: stack_define_snoc)
    moreover have "e' = RuntimeError (Redeclared (scope_name t) (arg_name a))"
      and "arg_name a \<in> fst ` set (entries t)"
      using Inl by (simp_all add: table_define_Inl)
    ultimately show ?thesis by auto
  next
    case (Inr r)
    obtain entry t' where r: "r = (entry, t')" by (cases r)
    have keys: "scope_name t' = scope_name t"
      "fst ` set (entries t') = insert (arg_name a) (fst ` set (entries t))"
      using table_define_Inr [of t "arg_name a" _ _ entry t'] Inr r by simp_all
    have "define_params as (parents @ [t']) = Inl e"
      using Cons.prems Inr r by (simp add: stack_define_snoc)
    from Cons.IH [OF this] obtain x where
      e: "e = RuntimeError (Redeclared (scope_name t) x)" and
      x: "x \<in> fst ` set (entries t') \<and> x \<in> arg_name ` set as \<or>
          1 < count_list (map arg_name as) x"
      using keys(1) by auto
    have "x \<in> fst ` set (entries t) \<and> x \<in> arg_name ` set (a # as) \<or>
          1 < count_list (map arg_name (a # as)) x"
    proof (cases "1 < count_list (map arg_name as) x")
      case True
      then show ?thesis by simp
    next
      case False
      with x have xin: "x \<in> fst ` set (entries t')" and xas: "x \<in> arg_name ` set as" by auto
      show ?thesis
      proof (cases "x = arg_name a")
        case True
        have "x \<in> set (map arg_name as)" using xas by simp
        then have "count_list (map arg_name as) x \<noteq> 0" by (simp only: count_list_0_iff) simp
        then have "0 < count_list (map arg_name as) x" by simp
        with True show ?thesis by simp
      next
        case False
        with xin keys(2) xas show ?thesis by auto
      qed
    qed
    with e show ?thesis by blast
  qed
qed

lemma define_params_fresh:
  assumes "define_params params (snd (push_scope s st)) = Inl e"
  shows "\<exists>x. e = RuntimeError (Redeclared s x) \<and> 1 < count_list (map arg_name params) x"
proof -
  have "define_params params (st @ [\<lparr>scope_name = s, entries = []\<rparr>]) = Inl e"
    using assms by (simp add: push_scope_def Let_def)
  from define_params_Inl_count [OF this] show ?thesis by simp
qed

lemma dpf_pop:
  "duplicate_param_fault toks
     (case pop_scope st of
        Inl e \<Rightarrow> Fail e
      | Inr (popped, st1) \<Rightarrow> Ok x (q\<lparr>symstack := st1\<rparr>))"
  by (simp add: pop_scope_def duplicate_param_fault_def)

lemma dpf_Fail_any:
  "duplicate_param_fault toks (Fail e :: (error, 'a) outcome) \<Longrightarrow>
   duplicate_param_fault toks (Fail e :: (error, 'b) outcome)"
  by (simp add: duplicate_param_fault_def)

lemma dpf_function_def:
  assumes st: "\<And>q. on_tokens toks q \<Longrightarrow> stays_on toks (pb q)"
    and pb: "\<And>q. on_tokens toks q \<Longrightarrow> duplicate_param_fault toks (pb q)"
    and p: "on_tokens toks p"
  shows "duplicate_param_fault toks (parse_function_def n pb p)"
proof (cases "def_header n p")
  case (Ok v p7)
  obtain f params where v: "v = (f, params)" by (cases v)
  have p7: "on_tokens toks p7"
    using stays_on_def_header [OF p, of n] Ok by simp
  show ?thesis
  proof (cases "define_params params (snd (push_scope (''func '' @ f) (symstack p7)))")
    case (Inl e)
    from define_params_fresh [OF Inl] obtain x where
      e: "e = RuntimeError (Redeclared (''func '' @ f) x)"
      and x: "1 < count_list (map arg_name params) x" by blast
    have "parse_function_def n pb p = Fail e"
      using Ok v Inl by (simp add: parse_function_def_header)
    moreover have "\<exists>m p f' params' p7'.
           on_tokens toks p \<and> def_header m p = Ok (f', params') p7' \<and>
           ''func '' @ f = ''func '' @ f' \<and> 1 < count_list (map arg_name params') x \<and>
           define_params params' (snd (push_scope (''func '' @ f') (symstack p7'))) =
             Inl (RuntimeError (Redeclared (''func '' @ f) x))"
      using p Ok v x Inl e by blast
    ultimately show ?thesis
      unfolding duplicate_param_fault_def e by simp
  next
    case (Inr st')
    have "parse_function_def n pb p =
            bind (pb (p7\<lparr>symstack := st'\<rparr>)) (\<lambda>body p8.
              (case pop_scope (symstack p8) of
                 Inl e \<Rightarrow> Fail e
               | Inr (popped, st1) \<Rightarrow>
                   Ok (FunctionDef f (Arguments params) body None [])
                      (p8\<lparr>symstack := st1\<rparr>)))"
      using Ok v Inr by (simp add: parse_function_def_header)
    moreover have "on_tokens toks (p7\<lparr>symstack := st'\<rparr>)" using p7 by simp
    ultimately show ?thesis
      by (auto intro!: dpf_bind st pb dpf_pop)
  qed
next
  case (Fail e)
  have "duplicate_param_fault toks (def_header n p)"
    using p by (auto simp: def_header_def Let_def stays_on_parameters intro!: dpf_bind)
  then have "duplicate_param_fault toks (Fail e :: (error, Stmt) outcome)"
    unfolding Fail by (rule dpf_Fail_any)
  then show ?thesis using Fail by (simp add: parse_function_def_header)
next
  case OutOfFuel
  then show ?thesis by (simp add: parse_function_def_header)
qed

lemma dpf_statement:
  "on_tokens toks p \<Longrightarrow> duplicate_param_fault toks (parse_statement n p)"
proof (induction n arbitrary: p)
  case 0
  show ?case by simp
next
  case (Suc n)
  have st: "\<And>q. on_tokens toks q \<Longrightarrow> stays_on toks (parse_block n (parse_statement n) q)"
    by (rule stays_on_block) (rule stays_on_statement)
  have pb: "\<And>q. on_tokens toks q \<Longrightarrow>
              duplicate_param_fault toks (parse_block n (parse_statement n) q)"
    by (rule dpf_block) (simp_all add: stays_on_statement Suc.IH)
  show ?case using Suc.prems
    by (simp add: dpf_if dpf_while dpf_for dpf_function_def st pb)
qed

lemma dpf_parse_loop:
  "on_tokens toks p \<Longrightarrow> duplicate_param_fault toks (parse_loop n m body p)"
  by (induction n arbitrary: body p)
     (auto intro!: dpf_bind dpf_statement stays_on_statement)

lemma stays_on_parse_loop:
  "on_tokens toks p \<Longrightarrow> stays_on toks (parse_loop n m body p)"
  by (induction n arbitrary: body p)
     (auto intro!: stays_on_bind stays_on_statement)

lemma dpf_parse: "on_tokens toks p \<Longrightarrow> duplicate_param_fault toks (parse n p)"
  by (auto simp: parse_def intro!: dpf_bind dpf_parse_loop stays_on_parse_loop)

lemma dpf_parse_tokens: "duplicate_param_fault toks (parse_tokens n toks)"
proof (cases toks)
  case Nil
  then show ?thesis by (simp add: parse_tokens_def parser_init_def duplicate_param_fault_def)
next
  case (Cons t ts)
  have "on_tokens toks \<lparr>tokens = toks, pos = 0, current = t,
               symstack = snd (push_scope ''global'' [])\<rparr>"
    using Cons by (simp add: on_tokens_def)
  from dpf_parse [OF this, of n] show ?thesis
    using Cons by (simp add: parse_tokens_def parser_init_def)
qed

lemma function_def_duplicate_fails:
  assumes "def_header n p = Ok (f, params) p7" and "\<not> distinct (map arg_name params)"
  shows "\<exists>x. 1 < count_list (map arg_name params) x \<and>
             parse_function_def n pb p = Fail (RuntimeError (Redeclared (''func '' @ f) x))"
proof -
  have "\<exists>e. define_params params (snd (push_scope (''func '' @ f) (symstack p7))) = Inl e"
    using define_params_fails_iff
      [of params "symstack p7" "\<lparr>scope_name = ''func '' @ f, entries = []\<rparr>"] assms(2)
    by (simp add: push_scope_def Let_def)
  then obtain e where
    e: "define_params params (snd (push_scope (''func '' @ f) (symstack p7))) = Inl e" ..
  from define_params_fresh [OF e] obtain x where
    "e = RuntimeError (Redeclared (''func '' @ f) x)" "1 < count_list (map arg_name params) x"
    by blast
  moreover have "parse_function_def n pb p = Fail e"
    using assms(1) e by (simp add: parse_function_def_header)
  ultimately show ?thesis by blast
qed


section \<open>Properties of the pipeline\<close>

subsection \<open>Boolean chains in the generator\<close>

lemma terminal_visit: "is_terminal e \<Longrightarrow> snd (visit_expr R e g) = g"
  by (cases e) simp_all

lemma boolop_loop_snoc:
  "boolop_loop R o1 temp (es @ [e]) g =
     (case boolop_loop R o1 temp es g of (l, g1) \<Rightarrow>
      case visit_expr R e g1 of (r, g2) \<Rightarrow>
      case new_temp g2 of (t, g3) \<Rightarrow>
        (t, emit o1 (Some l) (Some r) (Some t) None None g3))"
  by (induction es arbitrary: temp g) (simp_all split: prod.splits)

lemma visit_boolop_snoc:
  "vs \<noteq> [] \<Longrightarrow>
   visit_expr R (BoolOp o1 (vs @ [e])) g =
     (case visit_expr R (BoolOp o1 vs) g of (l, g1) \<Rightarrow>
      case visit_expr R e g1 of (r, g2) \<Rightarrow>
      case new_temp g2 of (t, g3) \<Rightarrow>
        (t, emit o1 (Some l) (Some r) (Some t) None None g3))"
  by (cases vs) (simp_all add: boolop_loop_snoc split: prod.splits)

lemma boolop_loop_terminals:
  "\<forall>e \<in> set es. is_terminal e \<Longrightarrow>
   \<exists>ins. code (snd (boolop_loop R o1 temp es g)) = code g @ ins \<and> length ins = length es \<and>
         (\<forall>i \<in> set ins. op i = o1 \<and> arg1 i \<noteq> None \<and> arg2 i \<noteq> None \<and> result i \<noteq> None)"
proof (induction es arbitrary: temp g)
  case Nil
  then show ?case by simp
next
  case (Cons e es)
  obtain r where r: "visit_expr R e g = (r, g)"
    using terminal_visit [of e R g] Cons.prems by (cases "visit_expr R e g") simp
  obtain t g2 where t: "new_temp g = (t, g2)" by (cases "new_temp g")
  have cg2: "code g2 = code g" using t by (auto simp: new_temp_def)
  from Cons.IH [of t "emit o1 (Some temp) (Some r) (Some t) None None g2"] Cons.prems
  obtain ins where
    "code (snd (boolop_loop R o1 t es (emit o1 (Some temp) (Some r) (Some t) None None g2))) =
       code (emit o1 (Some temp) (Some r) (Some t) None None g2) @ ins"
    "length ins = length es"
    "\<forall>i \<in> set ins. op i = o1 \<and> arg1 i \<noteq> None \<and> arg2 i \<noteq> None \<and> result i \<noteq> None"
    by auto
  then show ?case
    using r t cg2
    by (intro exI [of _ "instr o1 (Some temp) (Some r) (Some t) None None # ins"])
       (simp add: emit_def instr_def)
qed

subsection \<open>Parsing and lowering particular sources\<close>

text \<open>
  C3. The source \<open>a < b < c\<close> parses (fuel 20 is enough) into one expression statement
  holding one \<open>Compare\<close> node with left operand \<open>a\<close>, operators \<open><\<close>, \<open><\<close> and
  comparators \<open>b\<close>, \<open>c\<close>; the generator lowers that program into exactly two
  comparison instructions, \<open>t1 = a < b\<close> and then \<open>t2 = t1 < c\<close>.
\<close>

theorem chained_comparison_parse_and_lower:
  "(\<exists>p. front_end 20 ''a < b < c'' =
      Ok (Program [ExprStmt (Compare (Name ''a'') [''<'', ''<''] [Name ''b'', Name ''c''])]) p) \<and>
   generate_3ac R
     (Program [ExprStmt (Compare (Name ''a'') [''<'', ''<''] [Name ''b'', Name ''c''])]) =
     Inr [instr ''<'' (Some ''a'') (Some ''b'') (Some ''t1'') None None,
          instr ''<'' (Some ''t1'') (Some ''c'') (Some ''t2'') None None]"
proof
  have "case front_end 20 ''a < b < c'' of
          Ok x p \<Rightarrow> x = Program [ExprStmt (Compare (Name ''a'') [''<'', ''<''] [Name ''b'', Name ''c''])]
        | _ \<Rightarrow> False"
    by code_simp
  then show "\<exists>p. front_end 20 ''a < b < c'' =
      Ok (Program [ExprStmt (Compare (Name ''a'') [''<'', ''<''] [Name ''b'', Name ''c''])]) p"
    by (cases "front_end 20 ''a < b < c''") simp_all
next
  show "generate_3ac R
     (Program [ExprStmt (Compare (Name ''a'') [''<'', ''<''] [Name ''b'', Name ''c''])]) =
     Inr [instr ''<'' (Some ''a'') (Some ''b'') (Some ''t1'') None None,
          instr ''<'' (Some ''t1'') (Some ''c'') (Some ''t2'') None None]"
    by (simp add: generate_3ac_def visit_program_def gen_init_def new_temp_def emit_def
        str_nat.simps digit_char_def)
qed

text \<open>
  C5. The source \<open>def f(a, b):\<close> with the body \<open>return a + b\<close> parses into one
  function definition, and the generator produces, in order: the function-begin marker, the
  parameter declarations of \<open>a\<close> and \<open>b\<close>, the addition into \<open>t1\<close>, the return of
  \<open>t1\<close>, the implicit return without a value, and the function-end marker.
\<close>

theorem function_def_lowering:
  "(\<exists>p. front_end 20 ''def f(a, b):\<newline>    return a + b\<newline>'' =
      Ok (Program [FunctionDef ''f'' (Arguments [Arg ''a'' None None, Arg ''b'' None None])
                     [Return (Some (BinOp (Name ''a'') ''+'' (Name ''b'')))] None []]) p) \<and>
   generate_3ac R
     (Program [FunctionDef ''f'' (Arguments [Arg ''a'' None None, Arg ''b'' None None])
                 [Return (Some (BinOp (Name ''a'') ''+'' (Name ''b'')))] None []]) =
     Inr [instr ''func_begin'' None None (Some ''f'') None None,
          instr ''param'' (Some ''a'') None None None (Some ''func param''),
          instr ''param'' (Some ''b'') None None None (Some ''func param''),
          instr ''+'' (Some ''a'') (Some ''b'') (Some ''t1'') None None,
          instr ''return'' (Some ''t1'') None None None None,
          instr ''return'' None None None None (Some ''implicit return''),
          instr ''func_end'' None None (Some ''f'') None None]"
proof
  have "case front_end 20 ''def f(a, b):\<newline>    return a + b\<newline>'' of
          Ok x p \<Rightarrow> x = Program [FunctionDef ''f'' (Arguments [Arg ''a'' None None, Arg ''b'' None None])
                     [Return (Some (BinOp (Name ''a'') ''+'' (Name ''b'')))] None []]
        | _ \<Rightarrow> False"
    by code_simp
  then show "\<exists>p. front_end 20 ''def f(a, b):\<newline>    return a + b\<newline>'' =
      Ok (Program [FunctionDef ''f'' (Arguments [Arg ''a'' None None, Arg ''b'' None None])
                     [Return (Some (BinOp (Name ''a'') ''+'' (Name ''b'')))] None []]) p"
    by (cases "front_end 20 ''def f(a, b):\<newline>    return a + b\<newline>''") simp_all
next
  show "generate_3ac R
     (Program [FunctionDef ''f'' (Arguments [Arg ''a'' None None, Arg ''b'' None None])
                 [Return (Some (BinOp (Name ''a'') ''+'' (Name ''b'')))] None []]) =
     Inr [instr ''func_begin'' None None (Some ''f'') None None,
          instr ''param'' (Some ''a'') None None None (Some ''func param''),
          instr ''param'' (Some ''b'') None None None (Some ''func param''),
          instr ''+'' (Some ''a'') (Some ''b'') (Some ''t1'') None None,
          instr ''return'' (Some ''t1'') None None None None,
          instr ''return'' None None None None (Some ''implicit return''),
          instr ''func_end'' None None (Some ''f'') None None]"
    by (simp add: generate_3ac_def visit_program_def gen_init_def new_temp_def emit_def
        str_nat.simps digit_char_def)
qed

text \<open>
  C4. The source \<open>a and b and c\<close> parses into one \<open>BoolOp\<close> node with operator
  \<open>and\<close> and the three operands in one list. The generator lowers a chain without any
  test of an operand: a chain of one operand is that operand; a chain with one more operand
  is the chain so far, then the code of the new operand, then one instruction that combines
  the two places into a fresh temporary. For operands that are names or literals the code
  added by a chain of n operands is exactly n - 1 instructions, each with the operator of
  the chain.
\<close>

theorem boolop_chain_parse_and_lower:
  "(\<exists>p. front_end 20 ''a and b and c'' =
      Ok (Program [ExprStmt (BoolOp ''and'' [Name ''a'', Name ''b'', Name ''c''])]) p) \<and>
   visit_expr R (BoolOp o1 [v]) g = visit_expr R v g \<and>
   (vs \<noteq> [] \<longrightarrow>
      visit_expr R (BoolOp o1 (vs @ [e])) g =
        (case visit_expr R (BoolOp o1 vs) g of (l, g1) \<Rightarrow>
         case visit_expr R e g1 of (r, g2) \<Rightarrow>
         case new_temp g2 of (t, g3) \<Rightarrow>
           (t, emit o1 (Some l) (Some r) (Some t) None None g3))) \<and>
   (vs \<noteq> [] \<and> (\<forall>x \<in> set vs. is_terminal x) \<longrightarrow>
      (\<exists>ins. code (snd (visit_expr R (BoolOp o1 vs) g)) = code g @ ins \<and>
             length ins = length vs - 1 \<and>
             (\<forall>i \<in> set ins. op i = o1 \<and> arg1 i \<noteq> None \<and> arg2 i \<noteq> None \<and> result i \<noteq> None)))"
proof (intro conjI impI)
  have "case front_end 20 ''a and b and c'' of
          Ok x p \<Rightarrow> x = Program [ExprStmt (BoolOp ''and'' [Name ''a'', Name ''b'', Name ''c''])]
        | _ \<Rightarrow> False"
    by code_simp
  then show "\<exists>p. front_end 20 ''a and b and c'' =
      Ok (Program [ExprStmt (BoolOp ''and'' [Name ''a'', Name ''b'', Name ''c''])]) p"
    by (cases "front_end 20 ''a and b and c''") simp_all
next
  show "visit_expr R (BoolOp o1 [v]) g = visit_expr R v g"
    by (simp split: prod.splits)
next
  assume "vs \<noteq> []"
  then show "visit_expr R (BoolOp o1 (vs @ [e])) g =
        (case visit_expr R (BoolOp o1 vs) g of (l, g1) \<Rightarrow>
         case visit_expr R e g1 of (r, g2) \<Rightarrow>
         case new_temp g2 of (t, g3) \<Rightarrow>
           (t, emit o1 (Some l) (Some r) (Some t) None None g3))"
    by (rule visit_boolop_snoc)
next
  assume a: "vs \<noteq> [] \<and> (\<forall>x \<in> set vs. is_terminal x)"
  then obtain x xs where vs: "vs = x # xs" by (cases vs) auto
  obtain r where r: "visit_expr R x g = (r, g)"
    using terminal_visit [of x R g] a vs by (cases "visit_expr R x g") simp
  from boolop_loop_terminals [of xs R o1 r g] a vs
  obtain ins where "code (snd (boolop_loop R o1 r xs g)) = code g @ ins"
    "length ins = length xs"
    "\<forall>i \<in> set ins. op i = o1 \<and> arg1 i \<noteq> None \<and> arg2 i \<noteq> None \<and> result i \<noteq> None"
    by auto
  then show "\<exists>ins. code (snd (visit_expr R (BoolOp o1 vs) g)) = code g @ ins \<and>
             length ins = length vs - 1 \<and>
             (\<forall>i \<in> set ins. op i = o1 \<and> arg1 i \<noteq> None \<and> arg2 i \<noteq> None \<and> result i \<noteq> None)"
    using vs r by (intro exI [of _ ins]) simp
qed

theorem boolop_chain_parse_and_lower_witness:
  "[Name ''a'', Name ''b''] \<noteq> [] \<and> is_terminal (Name ''a'') \<and> is_terminal (Name ''b'') \<and>
   visit_expr (\<lambda>s. s, \<lambda>s. s) (BoolOp ''and'' [Name ''a'', Name ''b'', Name ''c'']) gen_init =
     (''t2'', gen_init\<lparr>code := [instr ''and'' (Some ''a'') (Some ''b'') (Some ''t1'') None None,
                                   instr ''and'' (Some ''t1'') (Some ''c'') (Some ''t2'') None None],
                         temp_count := 2\<rparr>) \<and>
   (\<exists>ins. code (snd (visit_expr (\<lambda>s. s, \<lambda>s. s) (BoolOp ''and'' [Name ''a'', Name ''b'']) gen_init)) =
            code gen_init @ ins \<and> length ins = 1)"
  using boolop_chain_parse_and_lower
    [of "(\<lambda>s. s, \<lambda>s. s)" "''and''" "Name ''a''" gen_init "[Name ''a'', Name ''b'']" "Name ''c''"]
  by (simp add: gen_init_def new_temp_def emit_def str_nat.simps digit_char_def)

text \<open>
  C6. \<open>define\<close> on a stack whose top table already has the name fails with the
  redeclaration fault of that table, and on a top table without the name it succeeds and
  appends the entry there, whatever the tables below hold. A function definition with two
  parameters \<open>a\<close> fails during parsing with that fault in the scope \<open>func f\<close>; a
  parameter and an assignment to \<open>a\<close> inside \<open>f\<close> parse when \<open>a\<close> exists in the
  global scope.
\<close>

theorem define_consults_current_scope_only:
  "(n \<in> fst ` set (entries t) \<longrightarrow>
      stack_define (parents @ [t]) n k ty =
        Inl (RuntimeError (Redeclared (scope_name t) n))) \<and>
   (n \<notin> fst ` set (entries t) \<longrightarrow>
      (\<exists>entry. stack_define (parents @ [t]) n k ty =
         Inr (entry, parents @ [t\<lparr>entries := entries t @ [(n, entry)]\<rparr>]))) \<and>
   front_end 20 ''def f(a, a):\<newline>    return a\<newline>'' =
     Fail (RuntimeError (Redeclared ''func f'' ''a'')) \<and>
   (\<exists>p. front_end 20 ''a = 1\<newline>def f(a):\<newline>    a = 2\<newline>'' =
      Ok (Program [Assign [Name ''a''] (Num ''1''),
                   FunctionDef ''f'' (Arguments [Arg ''a'' None None])
                     [Assign [Name ''a''] (Num ''2'')] None []]) p)"
proof (intro conjI impI)
  assume "n \<in> fst ` set (entries t)"
  then show "stack_define (parents @ [t]) n k ty =
        Inl (RuntimeError (Redeclared (scope_name t) n))"
    by (simp add: stack_define_snoc table_define_def)
next
  assume "n \<notin> fst ` set (entries t)"
  then show "\<exists>entry. stack_define (parents @ [t]) n k ty =
         Inr (entry, parents @ [t\<lparr>entries := entries t @ [(n, entry)]\<rparr>])"
    by (simp add: stack_define_snoc table_define_def Let_def)
next
  show "front_end 20 ''def f(a, a):\<newline>    return a\<newline>'' =
     Fail (RuntimeError (Redeclared ''func f'' ''a''))"
    by code_simp
next
  have "case front_end 20 ''a = 1\<newline>def f(a):\<newline>    a = 2\<newline>'' of
          Ok x p \<Rightarrow> x = Program [Assign [Name ''a''] (Num ''1''),
                   FunctionDef ''f'' (Arguments [Arg ''a'' None None])
                     [Assign [Name ''a''] (Num ''2'')] None []]
        | _ \<Rightarrow> False"
    by code_simp
  then show "\<exists>p. front_end 20 ''a = 1\<newline>def f(a):\<newline>    a = 2\<newline>'' =
      Ok (Program [Assign [Name ''a''] (Num ''1''),
                   FunctionDef ''f'' (Arguments [Arg ''a'' None None])
                     [Assign [Name ''a''] (Num ''2'')] None []]) p"
    by (cases "front_end 20 ''a = 1\<newline>def f(a):\<newline>    a = 2\<newline>''") simp_all
qed

theorem define_consults_current_scope_only_witness:
  "''a'' \<in> fst ` set (entries \<lparr>scope_name = ''func f'',
       entries = [(''a'', \<lparr>sym_name = ''a'', sym_kind = ''param'', sym_typ = ''unknown'',
                           sym_scope_name = ''func f'', sym_offset = None\<rparr>)]\<rparr>) \<and>
   stack_define
     ([\<lparr>scope_name = ''global'', entries = []\<rparr>] @
      [\<lparr>scope_name = ''func f'',
        entries = [(''a'', \<lparr>sym_name = ''a'', sym_kind = ''param'', sym_typ = ''unknown'',
                            sym_scope_name = ''func f'', sym_offset = None\<rparr>)]\<rparr>])
     ''a'' ''param'' ''unknown'' = Inl (RuntimeError (Redeclared ''func f'' ''a'')) \<and>
   ''a'' \<notin> fst ` set (entries \<lparr>scope_name = ''func f'', entries = []\<rparr>) \<and>
   (\<exists>entry. stack_define
      ([\<lparr>scope_name = ''global'',
         entries = [(''a'', \<lparr>sym_name = ''a'', sym_kind = ''variable'', sym_typ = ''unknown'',
                             sym_scope_name = ''global'', sym_offset = None\<rparr>)]\<rparr>] @
       [\<lparr>scope_name = ''func f'', entries = []\<rparr>])
      ''a'' ''param'' ''unknown'' =
      Inr (entry,
           [\<lparr>scope_name = ''global'',
             entries = [(''a'', \<lparr>sym_name = ''a'', sym_kind = ''variable'', sym_typ = ''unknown'',
                                 sym_scope_name = ''global'', sym_offset = None\<rparr>)]\<rparr>] @
           [\<lparr>scope_name = ''func f'', entries = [(''a'', entry)]\<rparr>]))"
  using define_consults_current_scope_only
    [of "''a''"
        "\<lparr>scope_name = ''func f'',
          entries = [(''a'', \<lparr>sym_name = ''a'', sym_kind = ''param'', sym_typ = ''unknown'',
                              sym_scope_name = ''func f'', sym_offset = None\<rparr>)]\<rparr>"
        "[\<lparr>scope_name = ''global'', entries = []\<rparr>]" "''param''" "''unknown''"]
    define_consults_current_scope_only
    [of "''a''" "\<lparr>scope_name = ''func f'', entries = []\<rparr>"
        "[\<lparr>scope_name = ''global'',
           entries = [(''a'', \<lparr>sym_name = ''a'', sym_kind = ''variable'', sym_typ = ''unknown'',
                               sym_scope_name = ''global'', sym_offset = None\<rparr>)]\<rparr>]"
        "''param''" "''unknown''"]
  by simp

text \<open>
  C9. Whatever the tokens and the fuel, a redeclaration fault of the parser has this
  origin: at some position of the same token list the header of a function definition
  parses, the name in the fault is the name of at least two parameters of that header, the
  scope in the fault is the scope of that function, and the fault is the one returned by
  the registration of these parameters in the scope just pushed. In particular the scope
  is one pushed by a function definition. The guarded registration used for assignment
  targets and function names never raises the fault; the registration of the parameters
  in the new scope fails exactly when two parameters have the same name, and a header
  with two such parameters makes \<open>parse_function_def\<close> raise it. Assigning twice to
  \<open>x\<close> and defining \<open>f\<close> twice in one scope both parse.
\<close>

theorem redeclaration_only_from_parameters:
  "duplicate_param_fault toks (parse_tokens n toks) \<and>
   func_scope_fault (parse_tokens n toks) \<and>
   define_if_absent x k ty p \<noteq> Fail (RuntimeError (Redeclared s y)) \<and>
   ((\<exists>e. define_params params (snd (push_scope (''func '' @ f) st)) = Inl e) \<longleftrightarrow>
      \<not> distinct (map arg_name params)) \<and>
   (def_header m p = Ok (f, params) p7 \<and> \<not> distinct (map arg_name params) \<longrightarrow>
      (\<exists>z. 1 < count_list (map arg_name params) z \<and>
           parse_function_def m pb p = Fail (RuntimeError (Redeclared (''func '' @ f) z)))) \<and>
   (\<exists>q. front_end 20 ''x = 1\<newline>x = 2\<newline>'' =
      Ok (Program [Assign [Name ''x''] (Num ''1''), Assign [Name ''x''] (Num ''2'')]) q) \<and>
   (\<exists>q. front_end 20 ''def f():\<newline>    pass\<newline>def f():\<newline>    pass\<newline>'' =
      Ok (Program [FunctionDef ''f'' (Arguments []) [Pass] None [],
                   FunctionDef ''f'' (Arguments []) [Pass] None []]) q)"
proof (intro conjI)
  show "duplicate_param_fault toks (parse_tokens n toks)" by (rule dpf_parse_tokens)
next
  show "func_scope_fault (parse_tokens n toks)" by (rule fsf_parse_tokens)
next
  show "define_if_absent x k ty p \<noteq> Fail (RuntimeError (Redeclared s y))"
    by (rule define_if_absent_no_redeclared)
next
  show "(\<exists>e. define_params params (snd (push_scope (''func '' @ f) st)) = Inl e) \<longleftrightarrow>
      \<not> distinct (map arg_name params)"
    using define_params_fails_iff [of params st "\<lparr>scope_name = ''func '' @ f, entries = []\<rparr>"]
    by (simp add: push_scope_def Let_def)
next
  show "def_header m p = Ok (f, params) p7 \<and> \<not> distinct (map arg_name params) \<longrightarrow>
      (\<exists>z. 1 < count_list (map arg_name params) z \<and>
           parse_function_def m pb p = Fail (RuntimeError (Redeclared (''func '' @ f) z)))"
    using function_def_duplicate_fails [of m p f params p7 pb] by blast
next
  have "case front_end 20 ''x = 1\<newline>x = 2\<newline>'' of
          Ok x p \<Rightarrow> x = Program [Assign [Name ''x''] (Num ''1''), Assign [Name ''x''] (Num ''2'')]
        | _ \<Rightarrow> False"
    by code_simp
  then show "\<exists>q. front_end 20 ''x = 1\<newline>x = 2\<newline>'' =
      Ok (Program [Assign [Name ''x''] (Num ''1''), Assign [Name ''x''] (Num ''2'')]) q"
    by (cases "front_end 20 ''x = 1\<newline>x = 2\<newline>''") simp_all
next
  have "case front_end 20 ''def f():\<newline>    pass\<newline>def f():\<newline>    pass\<newline>'' of
          Ok x p \<Rightarrow> x = Program [FunctionDef ''f'' (Arguments []) [Pass] None [],
                   FunctionDef ''f'' (Arguments []) [Pass] None []]
        | _ \<Rightarrow> False"
    by code_simp
  then show "\<exists>q. front_end 20 ''def f():\<newline>    pass\<newline>def f():\<newline>    pass\<newline>'' =
      Ok (Program [FunctionDef ''f'' (Arguments []) [Pass] None [],
                   FunctionDef ''f'' (Arguments []) [Pass] None []]) q"
    by (cases "front_end 20 ''def f():\<newline>    pass\<newline>def f():\<newline>    pass\<newline>''")
       simp_all
qed

theorem redeclaration_only_from_parameters_witness:
  "parse_tokens 20
     [Token TT_NAME (VStr ''def'') 1 1, Token TT_NAME (VStr ''f'') 1 5,
      Token TT_LPAREN (VStr ''('') 1 6, Token TT_NAME (VStr ''a'') 1 7,
      Token TT_COMMA (VStr '','') 1 8, Token TT_NAME (VStr ''a'') 1 10,
      Token TT_RPAREN (VStr '')'') 1 11, Token TT_COLON (VStr '':'') 1 12,
      Token TT_NAME (VStr ''pass'') 1 14, Token TT_NEWLINE (VStr [CHR 0x0A]) 1 18,
      Token TT_ENDMARKER VNone 2 1] =
     Fail (RuntimeError (Redeclared ''func f'' ''a'')) \<and>
   (\<exists>m p f params p7.
      on_tokens
        [Token TT_NAME (VStr ''def'') 1 1, Token TT_NAME (VStr ''f'') 1 5,
         Token TT_LPAREN (VStr ''('') 1 6, Token TT_NAME (VStr ''a'') 1 7,
         Token TT_COMMA (VStr '','') 1 8, Token TT_NAME (VStr ''a'') 1 10,
         Token TT_RPAREN (VStr '')'') 1 11, Token TT_COLON (VStr '':'') 1 12,
         Token TT_NAME (VStr ''pass'') 1 14, Token TT_NEWLINE (VStr [CHR 0x0A]) 1 18,
         Token TT_ENDMARKER VNone 2 1] p \<and>
      def_header m p = Ok (f, params) p7 \<and>
      ''func f'' = ''func '' @ f \<and> 1 < count_list (map arg_name params) ''a'' \<and>
      define_params params (snd (push_scope (''func '' @ f) (symstack p7))) =
        Inl (RuntimeError (Redeclared ''func f'' ''a'')))"
proof -
  have h: "parse_tokens 20
     [Token TT_NAME (VStr ''def'') 1 1, Token TT_NAME (VStr ''f'') 1 5,
      Token TT_LPAREN (VStr ''('') 1 6, Token TT_NAME (VStr ''a'') 1 7,
      Token TT_COMMA (VStr '','') 1 8, Token TT_NAME (VStr ''a'') 1 10,
      Token TT_RPAREN (VStr '')'') 1 11, Token TT_COLON (VStr '':'') 1 12,
      Token TT_NAME (VStr ''pass'') 1 14, Token TT_NEWLINE (VStr [CHR 0x0A]) 1 18,
      Token TT_ENDMARKER VNone 2 1] =
     Fail (RuntimeError (Redeclared ''func f'' ''a''))"
    by code_simp
  from redeclaration_only_from_parameters
    [of "[Token TT_NAME (VStr ''def'') 1 1, Token TT_NAME (VStr ''f'') 1 5,
      Token TT_LPAREN (VStr ''('') 1 6, Token TT_NAME (VStr ''a'') 1 7,
      Token TT_COMMA (VStr '','') 1 8, Token TT_NAME (VStr ''a'') 1 10,
      Token TT_RPAREN (VStr '')'') 1 11, Token TT_COLON (VStr '':'') 1 12,
      Token TT_NAME (VStr ''pass'') 1 14, Token TT_NEWLINE (VStr [CHR 0x0A]) 1 18,
      Token TT_ENDMARKER VNone 2 1]" 20]
  have "duplicate_param_fault
     [Token TT_NAME (VStr ''def'') 1 1, Token TT_NAME (VStr ''f'') 1 5,
      Token TT_LPAREN (VStr ''('') 1 6, Token TT_NAME (VStr ''a'') 1 7,
      Token TT_COMMA (VStr '','') 1 8, Token TT_NAME (VStr ''a'') 1 10,
      Token TT_RPAREN (VStr '')'') 1 11, Token TT_COLON (VStr '':'') 1 12,
      Token TT_NAME (VStr ''pass'') 1 14, Token TT_NEWLINE (VStr [CHR 0x0A]) 1 18,
      Token TT_ENDMARKER VNone 2 1]
     (parse_tokens 20
     [Token TT_NAME (VStr ''def'') 1 1, Token TT_NAME (VStr ''f'') 1 5,
      Token TT_LPAREN (VStr ''('') 1 6, Token TT_NAME (VStr ''a'') 1 7,
      Token TT_COMMA (VStr '','') 1 8, Token TT_NAME (VStr ''a'') 1 10,
      Token TT_RPAREN (VStr '')'') 1 11, Token TT_COLON (VStr '':'') 1 12,
      Token TT_NAME (VStr ''pass'') 1 14, Token TT_NEWLINE (VStr [CHR 0x0A]) 1 18,
      Token TT_ENDMARKER VNone 2 1])"
    by (rule conjunct1)
  then show ?thesis
    unfolding h duplicate_param_fault_def by simp
qed



section \<open>Properties of the generator\<close>

text \<open>
  C1. An augmented assignment \<open>x += y\<close> with a plain-name target and a terminal
  right-hand side: the generator appends two instructions, the combination of the target
  place with the right-hand place into the fresh temporary \<open>t1\<close> and the move of
  \<open>t1\<close> back into the target. There is no third instruction that first reads the
  target, although the docstring of \<open>visit_augassign\<close> lists one.
\<close>

theorem augassign_emits_two_instructions:
  "visit_stmt R (AugAssign (Name ''x'') ''+='' (Name ''y'')) gen_init =
     Inr (gen_init\<lparr>code := [instr ''+'' (Some ''x'') (Some ''y'') (Some ''t1'') None None,
                              instr ''='' (Some ''t1'') None (Some ''x'') None None],
                    temp_count := 1\<rparr>)"
  by (simp add: gen_init_def new_temp_def emit_def op_base_def str_nat.simps digit_char_def)

text \<open>
  C7. A \<open>break\<close> generated while the break stack is empty, and a \<open>continue\<close>
  generated while the continue stack is empty, do not fail: each appends one unconditional
  jump to its sentinel label and changes nothing else, and the statements that follow are
  generated from that state.
\<close>

theorem break_continue_outside_loop:
  "(break_stack g = [] \<longrightarrow>
      visit_stmt R Break g =
        Inr (g\<lparr>code := code g @
               [instr ''goto'' None None (Some ''__INVALID_BREAK__'') None None]\<rparr>) \<and>
      visit_stmts R (Break # ss) g =
        visit_stmts R ss
          (g\<lparr>code := code g @
               [instr ''goto'' None None (Some ''__INVALID_BREAK__'') None None]\<rparr>)) \<and>
   (continue_stack g = [] \<longrightarrow>
      visit_stmt R Continue g =
        Inr (g\<lparr>code := code g @
               [instr ''goto'' None None (Some ''__INVALID_CONTINUE__'') None None]\<rparr>) \<and>
      visit_stmts R (Continue # ss) g =
        visit_stmts R ss
          (g\<lparr>code := code g @
               [instr ''goto'' None None (Some ''__INVALID_CONTINUE__'') None None]\<rparr>))"
  by (simp add: visit_break_def visit_continue_def emit_def)

theorem break_continue_outside_loop_witness:
  "break_stack gen_init = [] \<and> continue_stack gen_init = [] \<and>
   visit_stmts (\<lambda>s. s, \<lambda>s. s) [Break, Continue, Return None] gen_init =
     Inr (gen_init\<lparr>code :=
            [instr ''goto'' None None (Some ''__INVALID_BREAK__'') None None,
             instr ''goto'' None None (Some ''__INVALID_CONTINUE__'') None None,
             instr ''return'' None None None None None]\<rparr>)"
  using break_continue_outside_loop [of gen_init "(\<lambda>s. s, \<lambda>s. s)" "[Continue, Return None]"]
    break_continue_outside_loop
      [of "gen_init\<lparr>code := code gen_init @
             [instr ''goto'' None None (Some ''__INVALID_BREAK__'') None None]\<rparr>"
          "(\<lambda>s. s, \<lambda>s. s)" "[Return None]"]
  by (simp add: gen_init_def emit_def)

end
